theory Spec2Isabelle
  imports Complex_Main
begin

section \<open>Conventions of the embedding\<close>

text \<open>
  The program is \<^verbatim>\<open>src/lemur.py\<close>. Python's unbounded integers are \<^typ>\<open>int\<close>. Its
  \<^verbatim>\<open>float\<close> and numpy's \<^verbatim>\<open>float64\<close> are read as exact reals (\<^typ>\<open>real\<close>) in the
  scorers, the model builders and the EM step, with two exceptions where the floating-point
  arithmetic decides what the code does: in the EM step \<^verbatim>\<open>np.exp\<close> underflows to zero,
  and in the plausibility filter, whose test compares floats with a constant, the arithmetic
  is a parameter of the model. The non-finite values that the code can produce in exact
  arithmetic (the logarithm of a non-positive number, a division by zero inside pandas, the
  baseline \<^verbatim>\<open>-np.inf\<close>) are written out as separate constructors or as \<open>None\<close>, and a
  Python exception is a value \<open>Inl e\<close>.
\<close>

datatype py_error = ZeroDivisionError | KeyError | NameError | ValueError string

text \<open>
  A CIGAR is pysam's \<^verbatim>\<open>cigartuples\<close>: a list of pairs (operation code, run length).
\<close>

type_synonym cigar = "(int \<times> int) list"

definition CIGAR_OPS_INT :: "int list" where
  "CIGAR_OPS_INT = [0, 1, 2, 7, 8, 5, 4]"

definition TAXONOMY_RANKS :: "string list" where
  "TAXONOMY_RANKS = [''species'', ''genus'', ''family'', ''order'', ''class'', ''phylum'',
     ''clade'', ''superkingdom'']"

text \<open>
  \<^verbatim>\<open>FIXED_COSTS\<close> is a dictionary with the seven keys below; it is only read at a key
  that was tested to be one of \<^verbatim>\<open>[1, 2, 7, 8, 5, 4]\<close>, so the lookup never raises and
  the value at any other key is not used.
\<close>

definition FIXED_COSTS :: "int \<Rightarrow> real" where
  "FIXED_COSTS OP =
     (if OP = 0 then 1 else if OP = 1 then 0.005 else if OP = 2 then 0.005
      else if OP = 7 then 1 else if OP = 8 then 0.01 else if OP = 4 then 0.05
      else if OP = 5 then 0.001 else 0)"

text \<open>
  \<^verbatim>\<open>np.log\<close>: the real logarithm on a positive argument; \<open>None\<close> stands for the
  non-finite results (\<^verbatim>\<open>-inf\<close> at zero, \<^verbatim>\<open>nan\<close> below zero).
\<close>

definition np_log :: "real \<Rightarrow> real option" where
  "np_log x = (if 0 < x then Some (ln x) else None)"

text \<open>
  Arithmetic on a value that may be \<^verbatim>\<open>nan\<close>: \<^verbatim>\<open>nan\<close> absorbs sums and products.
\<close>

definition fadd :: "real option \<Rightarrow> real option \<Rightarrow> real option" where
  "fadd a b = (case a of None \<Rightarrow> None | Some x \<Rightarrow> (case b of None \<Rightarrow> None | Some y \<Rightarrow> Some (x + y)))"

definition fscale :: "int \<Rightarrow> real option \<Rightarrow> real option" where
  "fscale k a = (case a of None \<Rightarrow> None | Some x \<Rightarrow> Some (real_of_int k * x))"

section \<open>The Markov scorer\<close>

text \<open>
  \<^verbatim>\<open>score_cigar_markov(cigar, T)\<close>. The matrix \<open>T\<close> is read with \<^verbatim>\<open>T.at[a, b]\<close> at
  operation codes that are in its index, so it is a function of two codes. The loop state is
  the index \<open>i\<close> of \<^verbatim>\<open>enumerate\<close>, \<^verbatim>\<open>prev_OP\<close> and \<^verbatim>\<open>log_P\<close>; \<open>N\<close> is the
  length of the whole CIGAR. In the logarithms that the loop takes the argument is never
  zero, so \<open>None\<close> is \<^verbatim>\<open>nan\<close> there.
\<close>

fun markov_loop ::
  "(int \<Rightarrow> int \<Rightarrow> real) \<Rightarrow> nat \<Rightarrow> nat \<Rightarrow> cigar \<Rightarrow> int option \<Rightarrow> real option \<Rightarrow> real option" where
  "markov_loop T N i [] prev_OP log_P = log_P"
| "markov_loop T N i ((OP, L) # rest) prev_OP log_P =
     (if \<not> ((i = 0 \<or> int i = int N - 1) \<and> OP = last CIGAR_OPS_INT) then
        (if OP \<in> set [1, 2, 7, 8, 5, 4] then
           (let log_P1 =
                  (if T OP OP \<noteq> 0 then fadd log_P (fscale (L - 1) (np_log (T OP OP)))
                   else fadd log_P (fscale (L - 1) (np_log (FIXED_COSTS OP))));
                log_P2 =
                  (case prev_OP of
                     None \<Rightarrow> log_P1
                   | Some p \<Rightarrow> (if T p OP \<noteq> 0 then fadd log_P1 (np_log (T p OP)) else log_P1))
            in markov_loop T N (Suc i) rest (Some OP) log_P2)
         else markov_loop T N (Suc i) rest prev_OP log_P)
      else markov_loop T N (Suc i) rest prev_OP log_P)"

definition score_cigar_markov :: "cigar \<Rightarrow> (int \<Rightarrow> int \<Rightarrow> real) \<Rightarrow> real option" where
  "score_cigar_markov cigar T = markov_loop T (length cigar) 0 cigar None (Some 0)"

text \<open>
  The scorer as the specification words it: the retained runs of a CIGAR are those that are
  not a SoftClip (code 4) in first or last position and whose operation is one of the six
  scored kinds; each retained run contributes its self-transition term and each pair of
  neighbouring retained runs its pairwise term.
\<close>

definition scored_runs :: "nat \<Rightarrow> nat \<Rightarrow> cigar \<Rightarrow> cigar" where
  "scored_runs N i cigar =
     map snd (filter (\<lambda>(j, (OP, L)). \<not> ((j = 0 \<or> int j = int N - 1) \<and> OP = 4)
                                       \<and> OP \<in> {1, 2, 7, 8, 5, 4})
                     (enumerate i cigar))"

definition self_term :: "(int \<Rightarrow> int \<Rightarrow> real) \<Rightarrow> int \<times> int \<Rightarrow> real" where
  "self_term T run =
     (case run of (OP, L) \<Rightarrow>
        if 0 < T OP OP then real_of_int (L - 1) * ln (T OP OP)
        else real_of_int (L - 1) * ln (FIXED_COSTS OP))"

definition pair_term :: "(int \<Rightarrow> int \<Rightarrow> real) \<Rightarrow> int \<times> int \<Rightarrow> real" where
  "pair_term T pq = (case pq of (p, OP) \<Rightarrow> if T p OP \<noteq> 0 then ln (T p OP) else 0)"

definition markov_score_spec :: "(int \<Rightarrow> int \<Rightarrow> real) \<Rightarrow> cigar \<Rightarrow> real" where
  "markov_score_spec T cigar =
     (let runs = scored_runs (length cigar) 0 cigar; ops = map fst runs
      in sum_list (map (self_term T) runs) + sum_list (map (pair_term T) (zip ops (tl ops))))"

text \<open>
  The pairwise terms along a list of retained operations, started from the previous retained
  operation of the loop; it is the shape in which the loop accumulates them.
\<close>

fun pair_chain :: "(int \<Rightarrow> int \<Rightarrow> real) \<Rightarrow> int option \<Rightarrow> int list \<Rightarrow> real" where
  "pair_chain T prev [] = 0"
| "pair_chain T prev (OP # ops) =
     (case prev of None \<Rightarrow> 0 | Some p \<Rightarrow> pair_term T (p, OP)) + pair_chain T (Some OP) ops"


section \<open>The Markov model builder\<close>

text \<open>
  \<^verbatim>\<open>build_transition_mat(cigars)\<close>. The data frame of counts has the index and the columns
  \<^verbatim>\<open>CIGAR_OPS_INT + [-1]\<close> and starts at zero; it is a function of two codes, and
  \<^verbatim>\<open>transition_mat.at[a, b] += k\<close> is \<open>at_add\<close>. The loop writes only at codes that it
  tested to be in \<^verbatim>\<open>CIGAR_OPS_INT\<close>, so no write leaves the index.
\<close>

type_synonym counts = "int \<Rightarrow> int \<Rightarrow> int"

definition mat_index :: "int list" where
  "mat_index = CIGAR_OPS_INT @ [- 1]"

definition at_add :: "counts \<Rightarrow> int \<Rightarrow> int \<Rightarrow> int \<Rightarrow> counts" where
  "at_add M a b k = M(a := (M a)(b := M a b + k))"

fun count_loop :: "nat \<Rightarrow> nat \<Rightarrow> cigar \<Rightarrow> int option \<Rightarrow> counts \<Rightarrow> counts" where
  "count_loop N i [] prev_OP M = M"
| "count_loop N i ((OP, L) # rest) prev_OP M =
     (if \<not> ((i = 0 \<or> int i = int N - 1) \<and> OP = last CIGAR_OPS_INT) then
        (if OP \<in> set CIGAR_OPS_INT then
           (let M1 = at_add M OP OP (L - 1);
                M2 = (case prev_OP of None \<Rightarrow> M1 | Some p \<Rightarrow> at_add M1 p OP 1)
            in count_loop N (Suc i) rest (Some OP) M2)
         else count_loop N (Suc i) rest prev_OP M)
      else count_loop N (Suc i) rest prev_OP M)"

text \<open>The outer loop over the corpus: \<^verbatim>\<open>prev_OP\<close> starts at \<^verbatim>\<open>None\<close> in every CIGAR.\<close>

fun count_cigars :: "cigar list \<Rightarrow> counts \<Rightarrow> counts" where
  "count_cigars [] M = M"
| "count_cigars (cigar # cigars) M =
     count_cigars cigars (count_loop (length cigar) 0 cigar None M)"

text \<open>
  \<^verbatim>\<open>transition_mat.div(transition_mat.sum(axis=1), axis=0).fillna(0.)\<close>: pandas divides
  each count by the sum of its row without raising; \<open>0 / 0\<close> is \<^verbatim>\<open>nan\<close>, which
  \<^verbatim>\<open>fillna\<close> turns into 0, and a non-zero count over a zero sum is an infinity, which
  \<^verbatim>\<open>fillna\<close> leaves.
\<close>

datatype cell = Val real | PosInf | NegInf

definition row_sum :: "counts \<Rightarrow> int \<Rightarrow> int" where
  "row_sum M a = sum_list (map (M a) mat_index)"

definition div_fillna :: "int \<Rightarrow> int \<Rightarrow> cell" where
  "div_fillna c s =
     (if s = 0 then (if c = 0 then Val 0 else if 0 < c then PosInf else NegInf)
      else Val (real_of_int c / real_of_int s))"

definition build_transition_mat :: "cigar list \<Rightarrow> int \<Rightarrow> int \<Rightarrow> cell" where
  "build_transition_mat cigars =
     (let M = count_cigars cigars (\<lambda>a b. 0)
      in (\<lambda>a b. div_fillna (M a b) (row_sum M a)))"

fun cell_value :: "cell \<Rightarrow> real" where
  "cell_value (Val v) = v"
| "cell_value PosInf = 0"
| "cell_value NegInf = 0"

fun is_Val :: "cell \<Rightarrow> bool" where
  "is_Val (Val v) = True"
| "is_Val PosInf = False"
| "is_Val NegInf = False"

text \<open>
  The counts as the specification words them: the retained runs of a CIGAR are those that
  are not a SoftClip in first or last position and whose operation is one of the seven
  kinds; a retained run of length \<open>L\<close> adds \<open>L - 1\<close> to the diagonal entry of its
  operation, and every pair of neighbouring retained runs adds 1 to the entry of the pair.
\<close>

definition counted_runs :: "nat \<Rightarrow> nat \<Rightarrow> cigar \<Rightarrow> cigar" where
  "counted_runs N i cigar =
     map snd (filter (\<lambda>(j, (OP, L)). \<not> ((j = 0 \<or> int j = int N - 1) \<and> OP = 4)
                                       \<and> OP \<in> {0, 1, 2, 7, 8, 5, 4})
                     (enumerate i cigar))"

definition self_count :: "int \<Rightarrow> int \<Rightarrow> int \<times> int \<Rightarrow> int" where
  "self_count a b run = (case run of (OP, L) \<Rightarrow> if a = OP \<and> b = OP then L - 1 else 0)"

definition pair_count :: "int \<Rightarrow> int \<Rightarrow> int \<times> int \<Rightarrow> int" where
  "pair_count a b pq = (if pq = (a, b) then 1 else 0)"

definition cigar_counts :: "cigar \<Rightarrow> int \<Rightarrow> int \<Rightarrow> int" where
  "cigar_counts cigar a b =
     (let runs = counted_runs (length cigar) 0 cigar; ops = map fst runs
      in sum_list (map (self_count a b) runs) + sum_list (map (pair_count a b) (zip ops (tl ops))))"

definition counts_spec :: "cigar list \<Rightarrow> int \<Rightarrow> int \<Rightarrow> int" where
  "counts_spec cigars a b = sum_list (map (\<lambda>cigar. cigar_counts cigar a b) cigars)"

text \<open>The pair counts in the shape in which the loop accumulates them.\<close>

fun count_chain :: "int \<Rightarrow> int \<Rightarrow> int option \<Rightarrow> int list \<Rightarrow> int" where
  "count_chain a b prev [] = 0"
| "count_chain a b prev (OP # ops) =
     (case prev of None \<Rightarrow> 0 | Some p \<Rightarrow> pair_count a b (p, OP)) + count_chain a b (Some OP) ops"

section \<open>Alignment records and the corpus of CIGARs\<close>

text \<open>
  An alignment of the SAM file, as \<^verbatim>\<open>pysam\<close> yields it, with the fields the program
  reads. \<open>AS\<close> is \<^verbatim>\<open>aln.get_tag("AS")\<close>. The two fields \<open>ref_tid\<close> and \<open>ref_gene\<close>
  are what the program parses out of the reference name,
  \<^verbatim>\<open>int(reference_name.split(":")[0])\<close> and
  \<^verbatim>\<open>reference_name.split(":")[1].split("/")[-1]\<close>; a record whose reference name does
  not parse, or that has no \<^verbatim>\<open>AS\<close> tag, makes the program raise and is not a value of
  this type.
\<close>

record aln =
  query_name :: string
  reference_name :: string
  ref_tid :: int
  ref_gene :: string
  is_secondary :: bool
  is_supplementary :: bool
  AS :: int
  cigartuples :: cigar

definition GENES :: "string list" where
  "GENES = [''RpsE'', ''RpsG'', ''RpoA'', ''RplK'', ''RpsQ'', ''RplA'', ''TsaD'', ''RpsK'',
     ''LeuS'', ''RpsS'', ''RpsM'', ''Ffh'', ''RplO'', ''SecY'', ''ArgS'', ''CysS'', ''PheS'',
     ''RplB'', ''RpsB'', ''RplP'', ''RplV'', ''RpsO'', ''Gtp1'', ''RpoB'', ''RplD'', ''RpsL'',
     ''RplC'', ''RpsI'', ''RpsD'', ''RplM'', ''SerS'', ''RplR'', ''ValS'', ''FtsY'', ''RplF'',
     ''RpsH'', ''RplN'', ''HisS'', ''RpsC'', ''RplE'']"

text \<open>\<^verbatim>\<open>extract_cigars_all\<close>: the CIGARs of the primary alignments, in file order.\<close>

definition extract_cigars_all :: "aln list \<Rightarrow> cigar list" where
  "extract_cigars_all sam =
     map cigartuples (filter (\<lambda>read. \<not> is_secondary read \<and> \<not> is_supplementary read) sam)"

text \<open>
  \<^verbatim>\<open>extract_cigars_per_gene\<close>: a dictionary from each gene of \<^verbatim>\<open>GENES\<close> to the CIGARs
  of the primary alignments on it, as an association list in the order of \<^verbatim>\<open>GENES\<close>;
  appending at a gene that is not a key raises \<^verbatim>\<open>KeyError\<close>.
\<close>

definition extract_cigars_per_gene :: "aln list \<Rightarrow> py_error + (string \<times> cigar list) list" where
  "extract_cigars_per_gene sam =
     (let primary = filter (\<lambda>read. \<not> is_secondary read \<and> \<not> is_supplementary read) sam
      in if \<exists>read \<in> set primary. ref_gene read \<notin> set GENES then Inl KeyError
         else Inr (map (\<lambda>gene. (gene, map cigartuples (filter (\<lambda>read. ref_gene read = gene) primary)))
                       GENES))"

section \<open>The edit-cost model and the choice of the scoring model\<close>

text \<open>
  \<^verbatim>\<open>build_edit_cost\<close>. The two nested loops add the length of every run whose operation is
  in \<^verbatim>\<open>ops_w_cost\<close> to the entry of its operation and to \<^verbatim>\<open>total\<close>; the state is
  the pair of the dictionary \<^verbatim>\<open>op_costs\<close> (read only at its seven keys) and
  \<^verbatim>\<open>total\<close>, written \<open>tot\<close>.
\<close>

definition ops_w_cost :: "int list" where
  "ops_w_cost = [1, 2, 8, 4, 5]"

definition op_costs_keys :: "int list" where
  "op_costs_keys = [0, 1, 2, 7, 8, 4, 5]"

fun edit_runs :: "cigar \<Rightarrow> (int \<Rightarrow> real) \<times> int \<Rightarrow> (int \<Rightarrow> real) \<times> int" where
  "edit_runs [] st = st"
| "edit_runs ((OP, L) # rest) (op_costs, tot) =
     (if OP \<in> set ops_w_cost
      then edit_runs rest (op_costs(OP := op_costs OP + real_of_int L), tot + L)
      else edit_runs rest (op_costs, tot))"

fun edit_cigars :: "cigar list \<Rightarrow> (int \<Rightarrow> real) \<times> int \<Rightarrow> (int \<Rightarrow> real) \<times> int" where
  "edit_cigars [] st = st"
| "edit_cigars (cigar # cigars) st = edit_cigars cigars (edit_runs cigar st)"

text \<open>
  The second loop divides by \<^verbatim>\<open>total\<close>, a Python integer: when it is zero the division
  of the first costed key raises \<^verbatim>\<open>ZeroDivisionError\<close>. With \<^verbatim>\<open>by_gene\<close> the function
  falls through and returns \<^verbatim>\<open>None\<close>.
\<close>

definition build_edit_cost :: "bool \<Rightarrow> aln list \<Rightarrow> py_error + (int \<rightharpoonup> real) option" where
  "build_edit_cost by_gene sam =
     (if by_gene then Inr None
      else (case edit_cigars (extract_cigars_all sam) (\<lambda>OP. 0, 0) of
              (op_costs, tot) \<Rightarrow>
                if tot = 0 then Inl ZeroDivisionError
                else Inr (Some (\<lambda>OP. if OP \<in> set op_costs_keys
                                       then Some (if OP \<in> set ops_w_cost
                                                  then op_costs OP / real_of_int tot else 1)
                                       else None))))"

text \<open>\<^verbatim>\<open>build_transition_mats\<close>: one matrix for the corpus, or one for each gene.\<close>

datatype transition_mats =
    Global_mat "int \<Rightarrow> int \<Rightarrow> cell"
  | Gene_mats "(string \<times> (int \<Rightarrow> int \<Rightarrow> cell)) list"

definition build_transition_mats :: "bool \<Rightarrow> aln list \<Rightarrow> py_error + transition_mats" where
  "build_transition_mats by_gene sam =
     (if by_gene then
        (case extract_cigars_per_gene sam of
           Inl e \<Rightarrow> Inl e
         | Inr gene_cigars \<Rightarrow>
             Inr (Gene_mats (map (\<lambda>(i, mat). (GENES ! i, mat))
                                 (enumerate 0 (map (\<lambda>(gene, cigars). build_transition_mat cigars)
                                                   gene_cigars)))))
      else Inr (Global_mat (build_transition_mat (extract_cigars_all sam))))"

text \<open>
  \<^verbatim>\<open>build_alignment_model\<close> stores one model, according to the options
  \<^verbatim>\<open>--minimap2-AS\<close>, \<^verbatim>\<open>--aln-score\<close> (a string, \<^verbatim>\<open>None\<close> when the option is not
  given) and \<^verbatim>\<open>--aln-score-gene\<close>.
\<close>

datatype alignment_model =
    No_model
  | Markov_model transition_mats
  | Edit_model "(int \<rightharpoonup> real) option"
  | Fixed_model "int \<rightharpoonup> real"

definition fixed_cigar :: "int \<rightharpoonup> real" where
  "fixed_cigar = [0 \<mapsto> 1, 1 \<mapsto> 0.005, 2 \<mapsto> 0.005, 7 \<mapsto> 1, 8 \<mapsto> 0.01, 4 \<mapsto> 0.05, 5 \<mapsto> 0.01]"

definition build_alignment_model ::
  "bool \<Rightarrow> string option \<Rightarrow> bool \<Rightarrow> aln list \<Rightarrow> py_error + alignment_model" where
  "build_alignment_model minimap2_AS aln_score by_gene sam =
     (if minimap2_AS then Inr No_model
      else if aln_score = Some ''markov'' then
        (case build_transition_mats by_gene sam of Inl e \<Rightarrow> Inl e | Inr m \<Rightarrow> Inr (Markov_model m))
      else if aln_score = Some ''edit'' then
        (case build_edit_cost by_gene sam of Inl e \<Rightarrow> Inl e | Inr m \<Rightarrow> Inr (Edit_model m))
      else Inr (Fixed_model fixed_cigar))"

text \<open>
  The model as the specification words it: the total run length of an operation kind over
  the corpus, divided by the total run length of the costed kinds; 1 for the other kinds.
\<close>

definition op_length :: "cigar list \<Rightarrow> int \<Rightarrow> int" where
  "op_length cigars OP = sum_list (map snd (filter (\<lambda>run. fst run = OP) (concat cigars)))"

definition costed_length :: "cigar list \<Rightarrow> int" where
  "costed_length cigars =
     sum_list (map snd (filter (\<lambda>run. fst run \<in> {1, 2, 8, 5, 4}) (concat cigars)))"

definition cost_model_spec :: "cigar list \<Rightarrow> int \<rightharpoonup> real" where
  "cost_model_spec cigars OP =
     (if OP \<in> {1, 2, 8, 5, 4}
      then Some (real_of_int (op_length cigars OP) / real_of_int (costed_length cigars))
      else if OP \<in> {0, 7} then Some 1 else None)"

section \<open>The likelihood table builder: the loop over the alignments\<close>

text \<open>
  \<^verbatim>\<open>__get_aln_len\<close>: the entries I, = and X of \<^verbatim>\<open>get_cigar_stats()[0]\<close>, that is the
  total length of the runs with codes 1, 7 and 8.
\<close>

definition get_aln_len :: "aln \<Rightarrow> int" where
  "get_aln_len a = sum_list (map snd (filter (\<lambda>run. fst run \<in> {1, 7, 8}) (cigartuples a)))"

text \<open>
  The first loop of \<^verbatim>\<open>build_P_rgs_df\<close> fills the columns of \<^verbatim>\<open>P_rgs_data\<close>, one entry
  for each alignment that it keeps; a row of the model is one entry of every column. The
  column \<^verbatim>\<open>log_P\<close> is filled here only with \<^verbatim>\<open>--minimap2-AS\<close>, and the column
  \<^verbatim>\<open>cigar\<close> only without it.
\<close>

record P_rgs_data =
  Read_ID_col :: string
  Target_ID_col :: int
  log_P_col :: "real option"
  cigar_col :: "cigar option"
  Gene_col :: string
  Reference_col :: string
  aln_len_col :: int

definition P_rgs_data_row :: "bool \<Rightarrow> aln \<Rightarrow> P_rgs_data" where
  "P_rgs_data_row minimap2_AS a =
     \<lparr>Read_ID_col = query_name a,
      Target_ID_col = ref_tid a,
      log_P_col = (if minimap2_AS
                   then Some (ln (real_of_int (AS a) / real_of_int (2 * get_aln_len a)))
                   else None),
      cigar_col = (if minimap2_AS then None else Some (cigartuples a)),
      Gene_col = ref_gene a,
      Reference_col = reference_name a,
      aln_len_col = get_aln_len a\<rparr>"

text \<open>
  The loop body runs for an alignment with \<^verbatim>\<open>aln_score > 0\<close>, and for no other. With
  \<^verbatim>\<open>--minimap2-AS\<close> the quotient \<^verbatim>\<open>aln_score / (2 * aln_len)\<close> of two Python integers
  raises \<^verbatim>\<open>ZeroDivisionError\<close> at length 0 (otherwise it is positive, and \<^verbatim>\<open>np.log\<close> of it
  is the real logarithm). With \<^verbatim>\<open>--gid-name\<close> the variable \<^verbatim>\<open>gene\<close> is never
  assigned, and appending it raises \<^verbatim>\<open>NameError\<close>.
\<close>

fun build_P_rgs_data :: "bool \<Rightarrow> bool \<Rightarrow> aln list \<Rightarrow> py_error + P_rgs_data list" where
  "build_P_rgs_data gid_name minimap2_AS [] = Inr []"
| "build_P_rgs_data gid_name minimap2_AS (a # rest) =
     (if 0 < AS a then
        (if minimap2_AS \<and> 2 * get_aln_len a = 0 then Inl ZeroDivisionError
         else if gid_name then Inl NameError
         else (case build_P_rgs_data gid_name minimap2_AS rest of
                 Inl e \<Rightarrow> Inl e
               | Inr rows \<Rightarrow> Inr (P_rgs_data_row minimap2_AS a # rows)))
      else build_P_rgs_data gid_name minimap2_AS rest)"

section \<open>The likelihood table, the abundance vector and the plausibility filter\<close>

text \<open>
  A row of \<^verbatim>\<open>P_rgs_df\<close> as \<^verbatim>\<open>build_P_rgs_df\<close> returns it, with the columns that the
  estimator reads. The abundance vector \<^verbatim>\<open>F\<close> is a pandas Series: a list of pairs of a
  target identifier (the index) and a value. Of \<^verbatim>\<open>gene_stats_df\<close> the two columns
  \<^verbatim>\<open>Target_ID\<close> and \<^verbatim>\<open>type\<close> are read.
\<close>

record P_rgs =
  Read_ID :: string
  Target_ID :: int
  log_P :: real
  Gene :: string

type_synonym abundance = "(int \<times> real) list"

type_synonym gene_stats = "(int \<times> string) list"

text \<open>\<^verbatim>\<open>len(set(...))\<close> of a column is the number of its distinct values.\<close>

definition N_genes_hit :: "P_rgs list \<Rightarrow> int \<Rightarrow> nat" where
  "N_genes_hit P_rgs_df tid = length (remdups (map Gene (filter (\<lambda>row. Target_ID row = tid) P_rgs_df)))"

definition N_genes :: "gene_stats \<Rightarrow> int \<Rightarrow> nat" where
  "N_genes gene_stats_df tid = length (remdups (map snd (filter (\<lambda>g. fst g = tid) gene_stats_df)))"

definition N_reads :: "P_rgs list \<Rightarrow> int \<Rightarrow> nat" where
  "N_reads P_rgs_df tid = length (remdups (map Read_ID (filter (\<lambda>row. Target_ID row = tid) P_rgs_df)))"

text \<open>
  The numbers of \<^verbatim>\<open>get_expected_gene_hits\<close> and of the test that reads them are
  floating-point numbers, and the test compares them with a constant, so the rounding of
  the operations decides which side of the constant a value falls on. The arithmetic is
  therefore a parameter of the model: the float that stands for a number (the conversion
  of a Python integer, the quotient of two Python integers, a literal), the four
  operations, \<^verbatim>\<open>np.power\<close> with an integer exponent, and the two comparisons.
  \<open>exact_arith\<close> is the arithmetic of the reals, which does not round.
\<close>

record 'f arith =
  f_of_real :: "real \<Rightarrow> 'f"
  f_add :: "'f \<Rightarrow> 'f \<Rightarrow> 'f"
  f_sub :: "'f \<Rightarrow> 'f \<Rightarrow> 'f"
  f_mul :: "'f \<Rightarrow> 'f \<Rightarrow> 'f"
  f_div :: "'f \<Rightarrow> 'f \<Rightarrow> 'f"
  f_pow :: "'f \<Rightarrow> nat \<Rightarrow> 'f"
  f_less :: "'f \<Rightarrow> 'f \<Rightarrow> bool"
  f_le :: "'f \<Rightarrow> 'f \<Rightarrow> bool"

definition exact_arith :: "real arith" where
  "exact_arith =
     \<lparr>f_of_real = (\<lambda>x. x), f_add = (+), f_sub = (-), f_mul = (*), f_div = (/),
      f_pow = (^), f_less = (<), f_le = (\<le>)\<rparr>"

text \<open>
  \<^verbatim>\<open>get_expected_gene_hits(N_genes, N_reads)\<close>: both arguments are Python integers, so
  \<^verbatim>\<open>1 / N_genes\<close> raises \<^verbatim>\<open>ZeroDivisionError\<close> at zero and is otherwise the float of the
  quotient, and \<^verbatim>\<open>N_genes * N_genes\<close> is a product of integers. The operations are
  applied in the order of the source: a product from left to right, and the sum before the
  difference in \<^verbatim>\<open>V\<close>.
\<close>

definition get_expected_gene_hits :: "'f arith \<Rightarrow> nat \<Rightarrow> nat \<Rightarrow> py_error + 'f \<times> 'f" where
  "get_expected_gene_hits ar n_genes n_reads =
     (if n_genes = 0 then Inl ZeroDivisionError
      else Inr (f_mul ar (f_of_real ar (real n_genes))
                  (f_sub ar (f_of_real ar 1)
                     (f_pow ar (f_sub ar (f_of_real ar 1) (f_of_real ar (1 / real n_genes))) n_reads)),
                f_sub ar
                  (f_add ar
                     (f_mul ar (f_of_real ar (real n_genes))
                        (f_pow ar (f_sub ar (f_of_real ar 1) (f_of_real ar (1 / real n_genes))) n_reads))
                     (f_mul ar
                        (f_mul ar (f_of_real ar (real (n_genes * n_genes)))
                           (f_sub ar (f_of_real ar 1) (f_of_real ar (1 / real n_genes))))
                        (f_pow ar (f_sub ar (f_of_real ar 1) (f_of_real ar (2 / real n_genes))) n_reads)))
                  (f_mul ar (f_of_real ar (real (n_genes * n_genes)))
                     (f_pow ar (f_sub ar (f_of_real ar 1) (f_of_real ar (1 / real n_genes)))
                        (2 * n_reads)))))"

text \<open>
  The body of the loop over \<^verbatim>\<open>tids\<close> in \<^verbatim>\<open>EM_complete\<close>: the value appended to
  \<^verbatim>\<open>filter_pass\<close> for one target. \<^verbatim>\<open>x > 0.7\<close> is \<^verbatim>\<open>0.7 < x\<close>.
\<close>

definition filter_pass_tid :: "'f arith \<Rightarrow> P_rgs list \<Rightarrow> gene_stats \<Rightarrow> int \<Rightarrow> py_error + bool" where
  "filter_pass_tid ar P_rgs_df gene_stats_df tid =
     (if N_reads P_rgs_df tid > 10 then
        (case get_expected_gene_hits ar (N_genes gene_stats_df tid) (N_reads P_rgs_df tid) of
           Inl e \<Rightarrow> Inl e
         | Inr (E_N_genes_hit, variance) \<Rightarrow>
             if (f_less ar (f_of_real ar 0.7)
                   (f_div ar (f_of_real ar (real (N_genes_hit P_rgs_df tid))) E_N_genes_hit)
                 \<or> f_le ar (f_sub ar E_N_genes_hit (f_of_real ar (real (N_genes_hit P_rgs_df tid))))
                      (f_mul ar (f_of_real ar 3) variance))
                \<and> N_genes_hit P_rgs_df tid > 1
             then Inr True else Inr False)
      else (if N_reads P_rgs_df tid = 0 then Inr False else Inr True))"

fun filter_pass :: "'f arith \<Rightarrow> P_rgs list \<Rightarrow> gene_stats \<Rightarrow> int list \<Rightarrow> py_error + bool list" where
  "filter_pass ar P_rgs_df gene_stats_df [] = Inr []"
| "filter_pass ar P_rgs_df gene_stats_df (tid # tids) =
     (case filter_pass_tid ar P_rgs_df gene_stats_df tid of
        Inl e \<Rightarrow> Inl e
      | Inr b \<Rightarrow> (case filter_pass ar P_rgs_df gene_stats_df tids of
                    Inl e \<Rightarrow> Inl e
                  | Inr bs \<Rightarrow> Inr (b # bs)))"

text \<open>
  The filter of \<^verbatim>\<open>EM_complete\<close>, skipped with \<^verbatim>\<open>--nof\<close>: \<^verbatim>\<open>self.F.loc[filter_pass]\<close>
  keeps the entries of \<^verbatim>\<open>F\<close> at the positions where the list holds \<^verbatim>\<open>True\<close>.
\<close>

definition plausibility_filter ::
  "'f arith \<Rightarrow> bool \<Rightarrow> P_rgs list \<Rightarrow> gene_stats \<Rightarrow> abundance \<Rightarrow> py_error + abundance" where
  "plausibility_filter ar nof P_rgs_df gene_stats_df F =
     (if nof then Inr F
      else (case filter_pass ar P_rgs_df gene_stats_df (map fst F) of
              Inl e \<Rightarrow> Inl e
            | Inr passed \<Rightarrow> Inr (map fst (filter snd (zip F passed)))))"

text \<open>
  The rule as the specification words it, with \<open>E = N_genes (1 - (1 - 1/N_genes)^N_reads)\<close>
  and the variance that belongs to it, evaluated in the same arithmetic.
\<close>

definition expected_hits :: "'f arith \<Rightarrow> nat \<Rightarrow> nat \<Rightarrow> 'f" where
  "expected_hits ar n r =
     f_mul ar (f_of_real ar (real n))
       (f_sub ar (f_of_real ar 1)
          (f_pow ar (f_sub ar (f_of_real ar 1) (f_of_real ar (1 / real n))) r))"

definition variance_hits :: "'f arith \<Rightarrow> nat \<Rightarrow> nat \<Rightarrow> 'f" where
  "variance_hits ar n r =
     f_sub ar
       (f_add ar
          (f_mul ar (f_of_real ar (real n))
             (f_pow ar (f_sub ar (f_of_real ar 1) (f_of_real ar (1 / real n))) r))
          (f_mul ar
             (f_mul ar (f_of_real ar (real (n * n)))
                (f_sub ar (f_of_real ar 1) (f_of_real ar (1 / real n))))
             (f_pow ar (f_sub ar (f_of_real ar 1) (f_of_real ar (2 / real n))) r)))
       (f_mul ar (f_of_real ar (real (n * n)))
          (f_pow ar (f_sub ar (f_of_real ar 1) (f_of_real ar (1 / real n))) (2 * r)))"

definition plausible_spec :: "'f arith \<Rightarrow> P_rgs list \<Rightarrow> gene_stats \<Rightarrow> int \<Rightarrow> bool" where
  "plausible_spec ar P_rgs_df gene_stats_df tid =
     (let h = N_genes_hit P_rgs_df tid; n = N_genes gene_stats_df tid; r = N_reads P_rgs_df tid
      in if r > 10
         then (f_less ar (f_of_real ar 0.7) (f_div ar (f_of_real ar (real h)) (expected_hits ar n r))
               \<or> f_le ar (f_sub ar (expected_hits ar n r) (f_of_real ar (real h)))
                    (f_mul ar (f_of_real ar 3) (variance_hits ar n r)))
              \<and> h > 1
         else r \<ge> 1)"

section \<open>The EM step\<close>

text \<open>
  The numbers of the EM step are floating-point numbers. The model takes them as reals and
  the operations as exact, with one exception: \<^verbatim>\<open>np.exp\<close> underflows. The least positive
  double is \<open>2^-1074\<close>, and an exponential of at most half of it is rounded to 0; this is
  how a mass becomes exactly zero. A \<^verbatim>\<open>log_P\<close> of \<^verbatim>\<open>-inf\<close> is outside the model.
\<close>

definition half_least_double :: real where
  "half_least_double = 1 / 2 ^ 1075"

definition np_exp :: "real \<Rightarrow> real" where
  "np_exp x = (if exp x \<le> half_least_double then 0 else exp x)"

text \<open>
  \<^verbatim>\<open>logSumExp(ns)\<close>. \<^verbatim>\<open>np.max\<close> raises \<^verbatim>\<open>ValueError\<close> on an empty array. The maximum
  of a non-empty array of reals is finite, so the branch that resets a non-finite maximum
  to 0 is not taken; the exponential of the difference 0 at the maximum is 1, so the sum of
  the exponentials is at least 1 and \<^verbatim>\<open>np.log\<close> of it is the real logarithm.
\<close>

definition logSumExp :: "real list \<Rightarrow> py_error + real" where
  "logSumExp ns =
     (if ns = [] then Inl (ValueError ''zero-size array to reduction operation maximum'')
      else (let mx = Max (set ns);
                ds = map (\<lambda>n. n - mx) ns;
                sumOfExp = sum_list (map np_exp ds)
            in Inr (mx + ln sumOfExp)))"

text \<open>Applying a function that may raise to every element of a list, in order.\<close>

fun map_err :: "('a \<Rightarrow> py_error + 'b) \<Rightarrow> 'a list \<Rightarrow> py_error + 'b list" where
  "map_err f [] = Inr []"
| "map_err f (x # xs) =
     (case f x of
        Inl e \<Rightarrow> Inl e
      | Inr y \<Rightarrow> (case map_err f xs of Inl e \<Rightarrow> Inl e | Inr ys \<Rightarrow> Inr (y # ys)))"

text \<open>
  The inner merge of the table with \<open>F\<close> on the target: one row for every pair of a table
  row and an entry of \<open>F\<close> with the same target, in the order of the table; the second
  component is the column \<^verbatim>\<open>F\<close>.
\<close>

definition merge_F :: "P_rgs list \<Rightarrow> abundance \<Rightarrow> (P_rgs \<times> real) list" where
  "merge_F P_rgs_df F =
     concat (map (\<lambda>row. map (\<lambda>entry. (row, snd entry))
                              (filter (\<lambda>entry. fst entry = Target_ID row) F))
                 P_rgs_df)"

text \<open>
  The column \<^verbatim>\<open>P(r|t)*F(t)\<close>, \<^verbatim>\<open>log_P + np.log(F)\<close>. The values of \<open>F\<close> are positive
  (\<^verbatim>\<open>init_F\<close> makes them so and \<^verbatim>\<open>EM_step\<close> keeps them so), where \<^verbatim>\<open>np.log\<close> is the
  real logarithm.
\<close>

definition weighted :: "P_rgs \<times> real \<Rightarrow> real" where
  "weighted x = log_P (fst x) + ln (snd x)"

text \<open>
  What \<^verbatim>\<open>EM_step\<close> leaves in the object: the new \<^verbatim>\<open>F\<close>, and of \<^verbatim>\<open>P_tgr\<close> the
  column \<^verbatim>\<open>P(r|t)*F(t)_sum\<close>, which \<^verbatim>\<open>compute_loglikelihood\<close> reads.
\<close>

record em_state =
  F_of :: abundance
  P_tgr_sum_col :: "real list"

text \<open>
  \<^verbatim>\<open>EM_step\<close>. Grouping \<^verbatim>\<open>P_tgr\<close> by read, aggregating with \<^verbatim>\<open>logSumExp\<close> and
  merging the result back on the read gives every row the aggregate of the rows of its
  read: the column \<open>sum_col\<close>. \<^verbatim>\<open>n_reads\<close> is the number of groups. The second
  aggregation has one group for each target of \<^verbatim>\<open>P_tgr\<close>, in ascending order. An
  exception inside an aggregation leaves the function.
\<close>

definition EM_step :: "P_rgs list \<Rightarrow> abundance \<Rightarrow> py_error + em_state" where
  "EM_step P_rgs_df F =
     (let P_tgr = merge_F P_rgs_df F
      in case map_err (\<lambda>x. logSumExp (map weighted
                               (filter (\<lambda>y. Read_ID (fst y) = Read_ID (fst x)) P_tgr))) P_tgr of
           Inl e \<Rightarrow> Inl e
         | Inr sum_col \<Rightarrow>
             (let P_t_r = map2 (\<lambda>x s. (Target_ID (fst x), weighted x - s)) P_tgr sum_col;
                  n_reads = length (remdups (map (\<lambda>x. Read_ID (fst x)) P_tgr));
                  tids = sorted_list_of_set (set (map fst P_t_r))
              in case map_err (\<lambda>t. case logSumExp (map snd (filter (\<lambda>p. fst p = t) P_t_r)) of
                                       Inl e \<Rightarrow> Inl e
                                     | Inr l \<Rightarrow> Inr (t, np_exp (l - ln (real n_reads)))) tids of
                   Inl e \<Rightarrow> Inl e
                 | Inr F' \<Rightarrow>
                     Inr \<lparr>F_of = filter (\<lambda>entry. snd entry \<noteq> 0) F', P_tgr_sum_col = sum_col\<rparr>))"

definition compute_loglikelihood :: "em_state \<Rightarrow> real" where
  "compute_loglikelihood st = sum_list (P_tgr_sum_col st)"

text \<open>
  The entries of the new \<open>F\<close> as the specification words them. \<open>lse\<close> is the value of
  \<^verbatim>\<open>logSumExp\<close> on a non-empty array; the logarithm of the posterior of a row is its
  weighted value minus the normalizing constant of its read; the entry of a target is the
  exponential of the \<^verbatim>\<open>logSumExp\<close> of the posteriors of its rows minus the logarithm of
  the number of reads.
\<close>

definition lse :: "real list \<Rightarrow> real" where
  "lse ns = Max (set ns) + ln (sum_list (map (\<lambda>n. np_exp (n - Max (set ns))) ns))"

definition read_keys :: "(P_rgs \<times> real) list \<Rightarrow> string list" where
  "read_keys P_tgr = remdups (map (\<lambda>x. Read_ID (fst x)) P_tgr)"

definition target_keys :: "(P_rgs \<times> real) list \<Rightarrow> int list" where
  "target_keys P_tgr = sorted_list_of_set (set (map (\<lambda>x. Target_ID (fst x)) P_tgr))"

definition log_normalizer :: "(P_rgs \<times> real) list \<Rightarrow> string \<Rightarrow> real" where
  "log_normalizer P_tgr read =
     lse (map weighted (filter (\<lambda>y. Read_ID (fst y) = read) P_tgr))"

definition log_posterior :: "(P_rgs \<times> real) list \<Rightarrow> P_rgs \<times> real \<Rightarrow> real" where
  "log_posterior P_tgr x = weighted x - log_normalizer P_tgr (Read_ID (fst x))"

definition M_step_entry :: "(P_rgs \<times> real) list \<Rightarrow> int \<Rightarrow> real" where
  "M_step_entry P_tgr t =
     np_exp (lse (map (log_posterior P_tgr) (filter (\<lambda>x. Target_ID (fst x) = t) P_tgr))
             - ln (real (length (read_keys P_tgr))))"

text \<open>
  The total data log-likelihood as the specification words it: the sum, over the reads, of
  the logarithm of the sum of the exponentials of the weighted values of the read.
\<close>

definition data_loglikelihood_spec :: "P_rgs list \<Rightarrow> abundance \<Rightarrow> real" where
  "data_loglikelihood_spec P_rgs_df F =
     (let P_tgr = merge_F P_rgs_df F
      in sum_list (map (\<lambda>read. ln (sum_list (map (\<lambda>y. exp (weighted y))
                                          (filter (\<lambda>y. Read_ID (fst y) = read) P_tgr))))
                       (remdups (map (\<lambda>x. Read_ID (fst x)) P_tgr))))"

section \<open>The EM loop\<close>

text \<open>
  The log-likelihood of the previous iteration starts at \<^verbatim>\<open>-np.inf\<close>; the difference of a
  finite value and \<^verbatim>\<open>-np.inf\<close> is \<^verbatim>\<open>+inf\<close>, which is not below the threshold.
\<close>

datatype ext_real = MInf | Fin real | PInf

fun ext_minus :: "real \<Rightarrow> ext_real \<Rightarrow> ext_real" where
  "ext_minus x MInf = PInf"
| "ext_minus x (Fin y) = Fin (x - y)"
| "ext_minus x PInf = MInf"

fun ext_less :: "ext_real \<Rightarrow> real \<Rightarrow> bool" where
  "ext_less MInf c = True"
| "ext_less (Fin d) c = (d < c)"
| "ext_less PInf c = False"

definition lli_threshold :: real where
  "lli_threshold = 0.01"

text \<open>
  The \<^verbatim>\<open>while True\<close> loop of \<^verbatim>\<open>EM_complete\<close>, up to the test of convergence. It has no
  bound in the source: the model takes fuel, one unit for each iteration, and \<open>None\<close> is a
  loop that has not returned within the fuel. The result is the number of the iteration
  that met the test and the state at that point.
\<close>

fun EM_loop ::
  "nat \<Rightarrow> P_rgs list \<Rightarrow> abundance \<Rightarrow> ext_real \<Rightarrow> nat \<Rightarrow> (py_error + nat \<times> em_state) option" where
  "EM_loop 0 P_rgs_df F lli i = None"
| "EM_loop (Suc fuel) P_rgs_df F lli i =
     (case EM_step P_rgs_df F of
        Inl e \<Rightarrow> Some (Inl e)
      | Inr st \<Rightarrow>
          (let new_lli = compute_loglikelihood st;
               lli_delta = ext_minus new_lli lli
           in if ext_less lli_delta lli_threshold then Some (Inr (i, st))
              else EM_loop fuel P_rgs_df (F_of st) (Fin new_lli) (i + 1)))"

text \<open>
  The iterations as a sequence, to state what the loop does: the abundance vector after
  \<open>k\<close> steps, the log-likelihood that iteration \<open>k\<close> computes (\<open>k \<ge> 1\<close>), the value it is
  compared with, and the test of iteration \<open>k\<close>.
\<close>

fun F_iter :: "P_rgs list \<Rightarrow> abundance \<Rightarrow> nat \<Rightarrow> abundance" where
  "F_iter P_rgs_df F 0 = F"
| "F_iter P_rgs_df F (Suc k) =
     (case EM_step P_rgs_df (F_iter P_rgs_df F k) of Inl e \<Rightarrow> [] | Inr st \<Rightarrow> F_of st)"

definition lli_iter :: "P_rgs list \<Rightarrow> abundance \<Rightarrow> nat \<Rightarrow> real" where
  "lli_iter P_rgs_df F k =
     (case EM_step P_rgs_df (F_iter P_rgs_df F (k - 1)) of
        Inl e \<Rightarrow> 0 | Inr st \<Rightarrow> compute_loglikelihood st)"

definition lli_before :: "P_rgs list \<Rightarrow> abundance \<Rightarrow> nat \<Rightarrow> ext_real" where
  "lli_before P_rgs_df F k = (if k \<le> 1 then MInf else Fin (lli_iter P_rgs_df F (k - 1)))"

definition below_threshold :: "P_rgs list \<Rightarrow> abundance \<Rightarrow> nat \<Rightarrow> bool" where
  "below_threshold P_rgs_df F k =
     ext_less (ext_minus (lli_iter P_rgs_df F k) (lli_before P_rgs_df F k)) lli_threshold"

definition first_below :: "P_rgs list \<Rightarrow> abundance \<Rightarrow> nat \<Rightarrow> bool" where
  "first_below P_rgs_df F k =
     (below_threshold P_rgs_df F k \<and> list_all (\<lambda>j. \<not> below_threshold P_rgs_df F j) [1..<k])"

text \<open>
  The quantities of one step in linear space and without underflow: the mass of a read
  (the sum of the exponentials of the weighted values of its rows), the posterior of a row
  and the mass of a target.
\<close>

definition read_mass :: "(P_rgs \<times> real) list \<Rightarrow> string \<Rightarrow> real" where
  "read_mass P_tgr read =
     sum_list (map (\<lambda>y. exp (weighted y)) (filter (\<lambda>y. Read_ID (fst y) = read) P_tgr))"

definition posterior :: "(P_rgs \<times> real) list \<Rightarrow> P_rgs \<times> real \<Rightarrow> real" where
  "posterior P_tgr x = exp (weighted x) / read_mass P_tgr (Read_ID (fst x))"

definition target_mass :: "(P_rgs \<times> real) list \<Rightarrow> int \<Rightarrow> real" where
  "target_mass P_tgr t =
     sum_list (map (posterior P_tgr) (filter (\<lambda>x. Target_ID (fst x) = t) P_tgr))"

section \<open>The whole estimation and the program\<close>

text \<open>
  \<^verbatim>\<open>init_F\<close>: the uniform vector over the index of the taxonomy; the quotient
  \<^verbatim>\<open>1. / len(self.df_taxonomy)\<close> raises on an empty taxonomy.
\<close>

definition init_F :: "int list \<Rightarrow> py_error + abundance" where
  "init_F tax_ids =
     (if length tax_ids = 0 then Inl ZeroDivisionError
      else Inr (map (\<lambda>t. (t, 1 / real (length tax_ids))) tax_ids))"

text \<open>
  \<^verbatim>\<open>collapse_rank\<close>, up to the choice of the ranks to keep: the test of the rank, the
  message of the exception (Python's rendering of the list of ranks) and the slice
  \<^verbatim>\<open>TAXONOMY_RANKS[TAXONOMY_RANKS.index(self.rank):]\<close>. The aggregation of the report is
  not modelled.
\<close>

fun join_comma :: "string list \<Rightarrow> string" where
  "join_comma [] = []"
| "join_comma [x] = x"
| "join_comma (x # y # ys) = x @ '', '' @ join_comma (y # ys)"

definition py_repr :: "string list \<Rightarrow> string" where
  "py_repr xs = ''['' @ join_comma (map (\<lambda>s. CHR 0x27 # s @ [CHR 0x27]) xs) @ '']''"

definition rank_message :: string where
  "rank_message = ''Specified rank must be in list: '' @ py_repr TAXONOMY_RANKS"

definition collapse_rank :: "string \<Rightarrow> py_error + string list" where
  "collapse_rank rank =
     (if rank \<notin> set TAXONOMY_RANKS then Inl (ValueError rank_message)
      else Inr (dropWhile (\<lambda>r. r \<noteq> rank) TAXONOMY_RANKS))"

text \<open>
  What a run has done, in order. \<open>EM_converged i\<close> is the return of the loop at
  iteration \<open>i\<close>: all iterations up to \<open>i\<close> have run when it is recorded.
\<close>

datatype event =
    Ran_minimap2
  | Loaded_taxonomy
  | Initialized_F
  | Built_alignment_model
  | Built_P_rgs_df
  | EM_converged nat
  | Final_EM_step
  | Wrote_lineage
  | Collapsed_rank
  | Removed_sam

text \<open>
  \<^verbatim>\<open>EM_complete\<close>: the threshold \<^verbatim>\<open>1. / n_reads\<close> (which raises on a table without
  reads), the plausibility filter, the loop, and at convergence the restriction of \<open>F\<close> to
  the entries at or above the threshold, one more step on them, the report and the collapse
  by rank. The result is what was done and the final \<open>F\<close> or the exception; \<open>None\<close> is a
  loop that has not returned within the fuel.
\<close>

definition EM_complete ::
  "nat \<Rightarrow> 'f arith \<Rightarrow> bool \<Rightarrow> string \<Rightarrow> P_rgs list \<Rightarrow> gene_stats \<Rightarrow> abundance
     \<Rightarrow> (event list \<times> (py_error + abundance)) option" where
  "EM_complete fuel ar nof rank P_rgs_df gene_stats_df F =
     (let n_reads = length (remdups (map Read_ID P_rgs_df))
      in if n_reads = 0 then Some ([], Inl ZeroDivisionError)
         else (let low_abundance_threshold = 1 / real n_reads
               in case plausibility_filter ar nof P_rgs_df gene_stats_df F of
                    Inl e \<Rightarrow> Some ([], Inl e)
                  | Inr F1 \<Rightarrow>
                      (case EM_loop fuel P_rgs_df F1 MInf 1 of
                         None \<Rightarrow> None
                       | Some (Inl e) \<Rightarrow> Some ([], Inl e)
                       | Some (Inr (i, st)) \<Rightarrow>
                           (let final_F = filter (\<lambda>entry. snd entry \<ge> low_abundance_threshold) (F_of st)
                            in case EM_step P_rgs_df final_F of
                                 Inl e \<Rightarrow> Some ([EM_converged i], Inl e)
                               | Inr st' \<Rightarrow>
                                   (case collapse_rank rank of
                                      Inl e \<Rightarrow>
                                        Some ([EM_converged i, Final_EM_step, Wrote_lineage], Inl e)
                                    | Inr keep_ranks \<Rightarrow>
                                        Some ([EM_converged i, Final_EM_step, Wrote_lineage,
                                               Collapsed_rank], Inr (F_of st')))))))"

text \<open>
  The options that the program reads, and what it reads from files. The rest of
  \<^verbatim>\<open>build_P_rgs_df\<close> after its first loop (the scoring of the rows, the filters on length
  and fidelity, the maximum for each read and target) is not modelled: it is the parameter
  \<open>finish_P_rgs_df\<close>. The external aligner is taken to succeed.
\<close>

record args =
  arg_sam_input :: "string option"
  arg_keep_alignments :: bool
  arg_minimap2_AS :: bool
  arg_aln_score :: "string option"
  arg_aln_score_gene :: bool
  arg_gid_name :: bool
  arg_nof :: bool
  arg_rank :: string

record inputs =
  in_sam :: "aln list"
  in_tax_ids :: "int list"
  in_gene_stats_df :: gene_stats
  in_finish_P_rgs_df :: "alignment_model \<Rightarrow> P_rgs_data list \<Rightarrow> P_rgs list"

definition main ::
  "nat \<Rightarrow> 'f arith \<Rightarrow> args \<Rightarrow> inputs \<Rightarrow> (event list \<times> (py_error + abundance)) option" where
  "main fuel ar a inp =
     (let tr1 = (if arg_sam_input a = None then [Ran_minimap2] else []) @ [Loaded_taxonomy]
      in case init_F (in_tax_ids inp) of
           Inl e \<Rightarrow> Some (tr1, Inl e)
         | Inr F \<Rightarrow>
             (case build_alignment_model (arg_minimap2_AS a) (arg_aln_score a) (arg_aln_score_gene a) (in_sam inp) of
                Inl e \<Rightarrow> Some (tr1 @ [Initialized_F], Inl e)
              | Inr model \<Rightarrow>
                  (case build_P_rgs_data (arg_gid_name a) (arg_minimap2_AS a) (in_sam inp) of
                     Inl e \<Rightarrow> Some (tr1 @ [Initialized_F, Built_alignment_model], Inl e)
                   | Inr rows \<Rightarrow>
                       (let tr2 = tr1 @ [Initialized_F, Built_alignment_model, Built_P_rgs_df]
                        in case EM_complete fuel ar (arg_nof a) (arg_rank a) (in_finish_P_rgs_df inp model rows)
                                  (in_gene_stats_df inp) F of
                             None \<Rightarrow> None
                           | Some (tr_em, Inl e) \<Rightarrow> Some (tr2 @ tr_em, Inl e)
                           | Some (tr_em, Inr final_F) \<Rightarrow>
                               (case collapse_rank (arg_rank a) of
                                  Inl e \<Rightarrow> Some (tr2 @ tr_em @ [Wrote_lineage], Inl e)
                                | Inr keep_ranks \<Rightarrow>
                                    Some (tr2 @ tr_em @ [Wrote_lineage, Collapsed_rank]
                                            @ (if arg_keep_alignments a then [] else [Removed_sam]),
                                          Inr final_F))))))"
section \<open>Properties of the Markov scorer\<close>

lemma pair_chain_Some: "pair_chain T (Some p) ops = sum_list (map (pair_term T) (zip (p # ops) ops))"
  by (induction ops arbitrary: p) simp_all

lemma pair_chain_None: "pair_chain T None ops = sum_list (map (pair_term T) (zip ops (tl ops)))"
  by (cases ops) (simp_all add: pair_chain_Some)

lemma FIXED_COSTS_pos: "OP \<in> {1, 2, 7, 8, 5, 4} \<Longrightarrow> 0 < FIXED_COSTS OP"
  by (auto simp: FIXED_COSTS_def)

lemma scored_runs_Nil: "scored_runs N i [] = []"
  by (simp add: scored_runs_def)

lemma scored_runs_Cons:
  "scored_runs N i ((OP, L) # rest) =
     (if \<not> ((i = 0 \<or> int i = int N - 1) \<and> OP = 4) \<and> OP \<in> {1, 2, 7, 8, 5, 4}
      then (OP, L) # scored_runs N (Suc i) rest else scored_runs N (Suc i) rest)"
  by (simp add: scored_runs_def)

lemma markov_step_value:
  assumes nn: "\<forall>a b. 0 \<le> T a b" and op: "OP \<in> {1, 2, 7, 8, 5, 4}"
  shows "(if T OP OP \<noteq> 0 then fadd (Some acc) (fscale (L - 1) (np_log (T OP OP)))
          else fadd (Some acc) (fscale (L - 1) (np_log (FIXED_COSTS OP))))
         = Some (acc + self_term T (OP, L))"
proof (cases "T OP OP = 0")
  case True
  with FIXED_COSTS_pos[OF op] show ?thesis
    by (simp add: fadd_def fscale_def np_log_def self_term_def)
next
  case False
  with nn have "0 < T OP OP" by (metis less_eq_real_def)
  then show ?thesis
    by (simp add: fadd_def fscale_def np_log_def self_term_def)
qed

lemma markov_pair_value:
  assumes nn: "\<forall>a b. 0 \<le> T a b"
  shows "(if T p OP \<noteq> 0 then fadd (Some acc) (np_log (T p OP)) else Some acc)
         = Some (acc + pair_term T (p, OP))"
proof (cases "T p OP = 0")
  case True
  then show ?thesis by (simp add: pair_term_def)
next
  case False
  with nn have "0 < T p OP" by (metis less_eq_real_def)
  then show ?thesis by (simp add: fadd_def np_log_def pair_term_def)
qed

lemma if_skip: "\<not> A \<or> \<not> B \<Longrightarrow> (if A then (if B then x else y) else y) = y"
  by auto

lemma if_keep: "A \<Longrightarrow> B \<Longrightarrow> (if A then (if B then x else y) else y) = x"
  by simp

lemma markov_loop_skip:
  assumes "((i = 0 \<or> int i = int N - 1) \<and> OP = 4) \<or> OP \<notin> {1, 2, 7, 8, 5, 4}"
  shows "markov_loop T N i ((OP, L) # rest) prev lp = markov_loop T N (Suc i) rest prev lp"
proof -
  have "\<not> \<not> ((i = 0 \<or> int i = int N - 1) \<and> OP = last CIGAR_OPS_INT) \<or> \<not> OP \<in> set [1, 2, 7, 8, 5, 4]"
    using assms by (auto simp: CIGAR_OPS_INT_def)
  then show ?thesis
    by (subst markov_loop.simps(2)) (rule if_skip)
qed

lemma markov_loop_keep:
  assumes "\<not> ((i = 0 \<or> int i = int N - 1) \<and> OP = 4)" and "OP \<in> {1, 2, 7, 8, 5, 4}"
  shows "markov_loop T N i ((OP, L) # rest) prev lp =
     (let log_P1 =
            (if T OP OP \<noteq> 0 then fadd lp (fscale (L - 1) (np_log (T OP OP)))
             else fadd lp (fscale (L - 1) (np_log (FIXED_COSTS OP))));
          log_P2 =
            (case prev of
               None \<Rightarrow> log_P1
             | Some p \<Rightarrow> (if T p OP \<noteq> 0 then fadd log_P1 (np_log (T p OP)) else log_P1))
      in markov_loop T N (Suc i) rest (Some OP) log_P2)"
proof -
  have a: "\<not> ((i = 0 \<or> int i = int N - 1) \<and> OP = last CIGAR_OPS_INT)"
    using assms(1) by (simp add: CIGAR_OPS_INT_def)
  have b: "OP \<in> set [1, 2, 7, 8, 5, 4]"
    using assms(2) by simp
  show ?thesis
    by (subst markov_loop.simps(2)) (rule if_keep[OF a b])
qed

lemma markov_loop_spec:
  assumes nn: "\<forall>a b. 0 \<le> T a b"
  shows "markov_loop T N i cigar prev (Some acc) =
         Some (acc + sum_list (map (self_term T) (scored_runs N i cigar))
                   + pair_chain T prev (map fst (scored_runs N i cigar)))"
proof (induction cigar arbitrary: i prev acc)
  case Nil
  show ?case by (simp add: scored_runs_Nil)
next
  case (Cons run cigar)
  obtain OP L where run: "run = (OP, L)" by (cases run)
  show ?case
  proof (cases "\<not> ((i = 0 \<or> int i = int N - 1) \<and> OP = 4) \<and> OP \<in> {1, 2, 7, 8, 5, 4}")
    case True
    then have bd: "\<not> ((i = 0 \<or> int i = int N - 1) \<and> OP = 4)" and op: "OP \<in> {1, 2, 7, 8, 5, 4}"
      by blast+
    have runs: "scored_runs N i (run # cigar) = (OP, L) # scored_runs N (Suc i) cigar"
      unfolding run scored_runs_Cons using True by simp
    show ?thesis
    proof (cases prev)
      case None
      show ?thesis
        unfolding run markov_loop_keep[OF bd op] runs[unfolded run] None Let_def
        by (simp only: option.case markov_step_value[OF nn op] Cons.IH)
           simp
    next
      case (Some p)
      show ?thesis
        unfolding run markov_loop_keep[OF bd op] runs[unfolded run] Some Let_def
        by (simp only: option.case markov_step_value[OF nn op] markov_pair_value[OF nn] Cons.IH)
           simp
    qed
  next
    case False
    then have sk: "((i = 0 \<or> int i = int N - 1) \<and> OP = 4) \<or> OP \<notin> {1, 2, 7, 8, 5, 4}"
      by blast
    have runs: "scored_runs N i (run # cigar) = scored_runs N (Suc i) cigar"
      unfolding run scored_runs_Cons using False by simp
    show ?thesis
      unfolding runs unfolding run markov_loop_skip[OF sk] by (rule Cons.IH)
  qed
qed

text \<open>
  Claim C7. For a scoring matrix without negative entries, the Markov scorer returns the sum,
  over the retained runs (not a SoftClip in first or last position, operation one of
  1, 2, 7, 8, 5, 4), of \<open>(L - 1) * ln (T[op,op])\<close> when \<open>T[op,op] > 0\<close> and of
  \<open>(L - 1) * ln (FIXED_COSTS[op])\<close> otherwise, plus, for each pair of neighbouring retained
  runs, \<open>ln (T[prev,op])\<close> when that entry is not zero and nothing when it is zero.
\<close>

theorem score_cigar_markov_spec:
  "\<forall>a b. 0 \<le> T a b \<Longrightarrow> score_cigar_markov cigar T = Some (markov_score_spec T cigar)"
  by (simp add: score_cigar_markov_def markov_score_spec_def markov_loop_spec pair_chain_None Let_def)

theorem score_cigar_markov_spec_witness:
  "(\<forall>a b. (0::real) \<le> (\<lambda>a b. if a = b then 1 / 2 else 0) a b)
   \<and> score_cigar_markov [(4, 3), (7, 10), (8, 2), (1, 1)] (\<lambda>a b. if a = b then 1 / 2 else 0)
     = Some (10 * ln (1 / 2))"
proof -
  let ?T = "\<lambda>a b :: int. if a = b then 1 / 2 else 0 :: real"
  have h: "\<forall>a b. 0 \<le> ?T a b" by simp
  have v: "markov_score_spec ?T [(4, 3), (7, 10), (8, 2), (1, 1)] = 10 * ln (1 / 2)"
    by (simp add: markov_score_spec_def scored_runs_def self_term_def pair_term_def
        enumerate_eq_zip)
  from score_cigar_markov_spec [OF h, of "[(4, 3), (7, 10), (8, 2), (1, 1)]"] v h
  show ?thesis by simp
qed

text \<open>
  Claim C10. A run whose operation is Match (code 0) leaves the loop state of the Markov
  scorer (the accumulated score and the previous operation) as it was, and a CIGAR made of
  Match runs only scores exactly 0 under every scoring matrix.
\<close>

theorem score_cigar_markov_match_only:
  "markov_loop T N i ((0, L) # rest) prev_OP acc = markov_loop T N (Suc i) rest prev_OP acc
   \<and> ((\<forall>run \<in> set cigar. fst run = 0) \<longrightarrow> score_cigar_markov cigar T = Some 0)"
proof
  show "markov_loop T N i ((0, L) # rest) prev_OP acc = markov_loop T N (Suc i) rest prev_OP acc"
    by (rule markov_loop_skip) simp
next
  have "\<forall>run \<in> set c. fst run = 0 \<Longrightarrow> markov_loop T n j c p lp = lp" for c n j p lp
  proof (induction c arbitrary: j)
    case Nil
    show ?case by simp
  next
    case (Cons run c)
    obtain OP L' where run: "run = (OP, L')" by (cases run)
    from Cons.prems run have op: "OP = 0" by simp
    have "markov_loop T n j ((OP, L') # c) p lp = markov_loop T n (Suc j) c p lp"
      by (rule markov_loop_skip) (simp add: op)
    with Cons run show ?case by simp
  qed
  then show "(\<forall>run \<in> set cigar. fst run = 0) \<longrightarrow> score_cigar_markov cigar T = Some 0"
    by (simp add: score_cigar_markov_def)
qed

theorem score_cigar_markov_match_only_witness:
  "map fst [(0, 100), (0, 50)] = [0::int, 0]
   \<and> score_cigar_markov [(0, 100), (0, 50)] (\<lambda>a b. 1 / 8) = Some 0"
  using score_cigar_markov_match_only [of "\<lambda>a b. 1 / 8" 0 0 0 "[]" None None "[(0, 100), (0, 50)]"]
  by simp

section \<open>Properties of the Markov model builder\<close>

lemma count_chain_Some:
  "count_chain a b (Some p) ops = sum_list (map (pair_count a b) (zip (p # ops) ops))"
  by (induction ops arbitrary: p) simp_all

lemma count_chain_None:
  "count_chain a b None ops = sum_list (map (pair_count a b) (zip ops (tl ops)))"
  by (cases ops) (simp_all add: count_chain_Some)

lemma counted_runs_Nil: "counted_runs N i [] = []"
  by (simp add: counted_runs_def)

lemma counted_runs_Cons:
  "counted_runs N i ((OP, L) # rest) =
     (if \<not> ((i = 0 \<or> int i = int N - 1) \<and> OP = 4) \<and> OP \<in> {0, 1, 2, 7, 8, 5, 4}
      then (OP, L) # counted_runs N (Suc i) rest else counted_runs N (Suc i) rest)"
  by (simp add: counted_runs_def)

lemma count_loop_skip:
  assumes "((i = 0 \<or> int i = int N - 1) \<and> OP = 4) \<or> OP \<notin> {0, 1, 2, 7, 8, 5, 4}"
  shows "count_loop N i ((OP, L) # rest) prev M = count_loop N (Suc i) rest prev M"
proof -
  have "\<not> \<not> ((i = 0 \<or> int i = int N - 1) \<and> OP = last CIGAR_OPS_INT) \<or> \<not> OP \<in> set CIGAR_OPS_INT"
    using assms by (auto simp: CIGAR_OPS_INT_def)
  then show ?thesis
    by (subst count_loop.simps(2)) (rule if_skip)
qed

lemma count_loop_keep:
  assumes "\<not> ((i = 0 \<or> int i = int N - 1) \<and> OP = 4)" and "OP \<in> {0, 1, 2, 7, 8, 5, 4}"
  shows "count_loop N i ((OP, L) # rest) prev M =
     count_loop N (Suc i) rest (Some OP)
       (case prev of None \<Rightarrow> at_add M OP OP (L - 1)
        | Some p \<Rightarrow> at_add (at_add M OP OP (L - 1)) p OP 1)"
proof -
  have a: "\<not> ((i = 0 \<or> int i = int N - 1) \<and> OP = last CIGAR_OPS_INT)"
    using assms(1) by (simp add: CIGAR_OPS_INT_def)
  have b: "OP \<in> set CIGAR_OPS_INT"
    using assms(2) by (simp add: CIGAR_OPS_INT_def)
  show ?thesis
    by (subst count_loop.simps(2)) (simp only: if_keep[OF a b] Let_def)
qed

lemma at_add_apply:
  "at_add M x y k a b = M a b + (if a = x \<and> b = y then k else 0)"
  by (simp add: at_add_def)

lemma count_loop_spec:
  "count_loop N i cigar prev M a b =
     M a b + sum_list (map (self_count a b) (counted_runs N i cigar))
           + count_chain a b prev (map fst (counted_runs N i cigar))"
proof (induction cigar arbitrary: i prev M)
  case Nil
  show ?case by (simp add: counted_runs_Nil)
next
  case (Cons run cigar)
  obtain OP L where run: "run = (OP, L)" by (cases run)
  show ?case
  proof (cases "\<not> ((i = 0 \<or> int i = int N - 1) \<and> OP = 4) \<and> OP \<in> {0, 1, 2, 7, 8, 5, 4}")
    case True
    then have bd: "\<not> ((i = 0 \<or> int i = int N - 1) \<and> OP = 4)"
      and op: "OP \<in> {0, 1, 2, 7, 8, 5, 4}"
      by blast+
    have runs: "counted_runs N i ((OP, L) # cigar) = (OP, L) # counted_runs N (Suc i) cigar"
      unfolding counted_runs_Cons using True by simp
    show ?thesis
    proof (cases prev)
      case None
      show ?thesis
        unfolding run count_loop_keep[OF bd op] runs None
        by (simp add: Cons.IH at_add_apply self_count_def)
    next
      case (Some p)
      show ?thesis
        unfolding run count_loop_keep[OF bd op] runs Some
        by (simp add: Cons.IH at_add_apply self_count_def pair_count_def)
    qed
  next
    case False
    then have sk: "((i = 0 \<or> int i = int N - 1) \<and> OP = 4) \<or> OP \<notin> {0, 1, 2, 7, 8, 5, 4}"
      by blast
    have runs: "counted_runs N i ((OP, L) # cigar) = counted_runs N (Suc i) cigar"
      unfolding counted_runs_Cons using False by simp
    show ?thesis
      unfolding run runs count_loop_skip[OF sk] by (rule Cons.IH)
  qed
qed

lemma count_cigars_spec:
  "count_cigars cigars M a b = M a b + counts_spec cigars a b"
  by (induction cigars arbitrary: M)
     (simp_all add: counts_spec_def cigar_counts_def count_loop_spec count_chain_None Let_def)

lemma self_count_nonneg: "1 \<le> snd run \<Longrightarrow> 0 \<le> self_count a b run"
  by (cases run) (simp add: self_count_def)

lemma counted_runs_subset: "set (counted_runs N i cigar) \<subseteq> set cigar"
proof -
  have "set (map snd (filter P xs)) \<subseteq> set (map snd xs)" for P and xs :: "(nat \<times> int \<times> int) list"
    by auto
  from this[of _ "enumerate i cigar"] show ?thesis
    by (simp add: counted_runs_def)
qed

lemma cigar_counts_nonneg:
  assumes "\<forall>run \<in> set cigar. 1 \<le> snd run"
  shows "0 \<le> cigar_counts cigar a b"
proof -
  have "0 \<le> sum_list (map (self_count a b) (counted_runs (length cigar) 0 cigar))"
    using assms counted_runs_subset[of "length cigar" 0 cigar]
    by (intro sum_list_nonneg) (auto intro: self_count_nonneg)
  moreover have "0 \<le> sum_list (map (pair_count a b) ps)" for ps
    by (intro sum_list_nonneg) (auto simp: pair_count_def)
  ultimately show ?thesis
    by (simp add: cigar_counts_def Let_def)
qed

lemma counts_spec_nonneg:
  assumes "\<forall>cigar \<in> set cigars. \<forall>run \<in> set cigar. 1 \<le> snd run"
  shows "0 \<le> counts_spec cigars a b"
  unfolding counts_spec_def
  using assms by (intro sum_list_nonneg) (auto intro: cigar_counts_nonneg)


lemma sum_list_divide_int:
  "sum_list (map (\<lambda>b. real_of_int (c b) / real_of_int s) idx) = real_of_int (sum_list (map c idx)) / real_of_int s"
  by (induction idx) (simp_all add: add_divide_distrib)

lemma build_transition_mat_entry:
  "build_transition_mat cigars a b =
     div_fillna (counts_spec cigars a b) (sum_list (map (counts_spec cigars a) mat_index))"
proof -
  have "count_cigars cigars (\<lambda>a b. 0) = counts_spec cigars"
    by (intro ext) (simp add: count_cigars_spec)
  then show ?thesis
    by (simp add: build_transition_mat_def Let_def row_sum_def)
qed

lemma sum_list_zero_nonneg:
  fixes c :: "int \<Rightarrow> int"
  assumes "\<forall>x \<in> set idx. 0 \<le> c x" and "sum_list (map c idx) = 0"
  shows "\<forall>x \<in> set idx. c x = 0"
  using assms
proof (induction idx)
  case Nil
  show ?case by simp
next
  case (Cons x xs)
  have "0 \<le> sum_list (map c xs)"
    using Cons.prems(1) by (intro sum_list_nonneg) auto
  moreover have "0 \<le> c x"
    using Cons.prems(1) by simp
  moreover have "c x + sum_list (map c xs) = 0"
    using Cons.prems(2) by simp
  ultimately have "c x = 0" and "sum_list (map c xs) = 0"
    by linarith+
  with Cons show ?case by simp
qed

lemma build_transition_mat_row:
  assumes pos: "\<forall>cigar \<in> set cigars. \<forall>run \<in> set cigar. 1 \<le> snd run"
  shows "(\<forall>b \<in> set idx. is_Val (div_fillna (counts_spec cigars a b) (sum_list (map (counts_spec cigars a) idx))))
       \<and> (sum_list (map (\<lambda>b. cell_value (div_fillna (counts_spec cigars a b) (sum_list (map (counts_spec cigars a) idx)))) idx) = 1
          \<or> (\<forall>b \<in> set idx. div_fillna (counts_spec cigars a b) (sum_list (map (counts_spec cigars a) idx)) = Val 0))"
proof (cases "sum_list (map (counts_spec cigars a) idx) = 0")
  case True
  have "\<forall>b \<in> set idx. 0 \<le> counts_spec cigars a b"
    using counts_spec_nonneg[OF pos] by simp
  then have z: "\<forall>b \<in> set idx. counts_spec cigars a b = 0"
    using True by (rule sum_list_zero_nonneg)
  with True show ?thesis by (simp add: div_fillna_def)
next
  case False
  then show ?thesis
    by (simp add: div_fillna_def sum_list_divide_int)
qed

text \<open>
  Claim C6. Every entry of the matrix that \<^verbatim>\<open>build_transition_mat\<close> returns is the count
  of the entry divided by the sum of the counts of its row, where the count of \<open>(a, b)\<close>
  over the corpus is: \<open>L - 1\<close> for each retained run of length \<open>L\<close> with operation
  \<open>a = b\<close>, plus 1 for each pair of neighbouring retained runs with operations \<open>a\<close> then
  \<open>b\<close>; a SoftClip run in first or last position is not retained. When every run length
  is at least 1, every entry of a row is a finite number and the row sums to 1 or is all
  zero.
\<close>

theorem build_transition_mat_rows:
  "build_transition_mat cigars a b =
     div_fillna (counts_spec cigars a b) (sum_list (map (counts_spec cigars a) mat_index))
   \<and> ((\<forall>cigar \<in> set cigars. \<forall>run \<in> set cigar. 1 \<le> snd run) \<longrightarrow>
        (\<forall>b \<in> set mat_index. is_Val (build_transition_mat cigars a b))
        \<and> (sum_list (map (\<lambda>b. cell_value (build_transition_mat cigars a b)) mat_index) = 1
           \<or> (\<forall>b \<in> set mat_index. build_transition_mat cigars a b = Val 0)))"
  using build_transition_mat_row[of cigars mat_index a]
  by (simp add: build_transition_mat_entry)

theorem build_transition_mat_rows_witness:
  "list_all (list_all (\<lambda>run. 1 \<le> snd run)) ([[(4, 5), (7, 10), (8, 1), (7, 20), (4, 3)]] :: cigar list)
   \<and> build_transition_mat [[(4, 5), (7, 10), (8, 1), (7, 20), (4, 3)]] 7 8 = Val (1 / 29)
   \<and> sum_list (map (\<lambda>b. cell_value (build_transition_mat [[(4, 5), (7, 10), (8, 1), (7, 20), (4, 3)]] 7 b))
         mat_index) = 1"
proof -
  let ?C = "[[(4, 5), (7, 10), (8, 1), (7, 20), (4, 3)]] :: cigar list"
  have h: "\<forall>cigar \<in> set ?C. \<forall>run \<in> set cigar. 1 \<le> snd run"
    by simp
  have e: "build_transition_mat ?C 7 8 = Val (1 / 29)"
    by code_simp
  have m: "8 \<in> set mat_index"
    by (simp add: mat_index_def CIGAR_OPS_INT_def)
  from build_transition_mat_rows [of ?C 7 8] h
  have "sum_list (map (\<lambda>b. cell_value (build_transition_mat ?C 7 b)) mat_index) = 1
        \<or> (\<forall>b \<in> set mat_index. build_transition_mat ?C 7 b = Val 0)"
    by blast
  with e m have "sum_list (map (\<lambda>b. cell_value (build_transition_mat ?C 7 b)) mat_index) = 1"
    by auto
  with e show ?thesis
    by simp
qed

section \<open>Properties of the edit-cost model and of the choice of the model\<close>

lemma edit_runs_fst:
  "fst (edit_runs cigar (c, t)) OP =
     c OP + (if OP \<in> set ops_w_cost
             then real_of_int (sum_list (map snd (filter (\<lambda>run. fst run = OP) cigar))) else 0)"
proof (induction cigar arbitrary: c t)
  case Nil
  show ?case by simp
next
  case (Cons run cigar)
  obtain OP' L where run: "run = (OP', L)" by (cases run)
  show ?case
    unfolding run by (cases "OP' \<in> set ops_w_cost") (auto simp: Cons.IH)
qed

lemma edit_runs_snd:
  "snd (edit_runs cigar (c, t)) =
     t + sum_list (map snd (filter (\<lambda>run. fst run \<in> set ops_w_cost) cigar))"
proof (induction cigar arbitrary: c t)
  case Nil
  show ?case by simp
next
  case (Cons run cigar)
  obtain OP' L where run: "run = (OP', L)" by (cases run)
  show ?case
    unfolding run by (cases "OP' \<in> set ops_w_cost") (simp_all add: Cons.IH)
qed

lemma set_ops_w_cost: "set ops_w_cost = {1, 2, 8, 5, 4}"
  by (auto simp: ops_w_cost_def)

lemma edit_cigars_fst:
  "fst (edit_cigars cigars (c, t)) OP =
     c OP + (if OP \<in> set ops_w_cost then real_of_int (op_length cigars OP) else 0)"
proof (induction cigars arbitrary: c t)
  case Nil
  show ?case by (simp add: op_length_def)
next
  case (Cons cigar cigars)
  have "edit_runs cigar (c, t) = (fst (edit_runs cigar (c, t)), snd (edit_runs cigar (c, t)))"
    by simp
  then have "fst (edit_cigars (cigar # cigars) (c, t)) OP =
      fst (edit_runs cigar (c, t)) OP
        + (if OP \<in> set ops_w_cost then real_of_int (op_length cigars OP) else 0)"
    using Cons.IH[of "fst (edit_runs cigar (c, t))" "snd (edit_runs cigar (c, t))"] by simp
  then show ?case
    by (simp add: edit_runs_fst op_length_def)
qed

lemma edit_cigars_snd:
  "snd (edit_cigars cigars (c, t)) = t + costed_length cigars"
proof (induction cigars arbitrary: c t)
  case Nil
  show ?case by (simp add: costed_length_def)
next
  case (Cons cigar cigars)
  have "edit_runs cigar (c, t) = (fst (edit_runs cigar (c, t)), snd (edit_runs cigar (c, t)))"
    by simp
  then have "snd (edit_cigars (cigar # cigars) (c, t)) =
      snd (edit_runs cigar (c, t)) + costed_length cigars"
    using Cons.IH[of "fst (edit_runs cigar (c, t))" "snd (edit_runs cigar (c, t))"] by simp
  then show ?case
    by (simp add: edit_runs_snd costed_length_def set_ops_w_cost)
qed

lemma build_edit_cost_spec:
  assumes "costed_length (extract_cigars_all sam) \<noteq> 0"
  shows "build_edit_cost False sam = Inr (Some (cost_model_spec (extract_cigars_all sam)))"
proof -
  let ?cs = "extract_cigars_all sam"
  obtain c where ct: "edit_cigars ?cs (\<lambda>OP. 0, 0) = (c, costed_length ?cs)"
    using edit_cigars_snd[of ?cs "\<lambda>OP. 0" 0]
    by (cases "edit_cigars ?cs (\<lambda>OP. 0, 0)") simp
  have c: "c OP = (if OP \<in> set ops_w_cost then real_of_int (op_length ?cs OP) else 0)" for OP
    using edit_cigars_fst[of ?cs "\<lambda>OP. 0" 0 OP] ct by simp
  have "(\<lambda>OP. if OP \<in> set op_costs_keys
              then Some (if OP \<in> set ops_w_cost
                         then c OP / real_of_int (costed_length ?cs) else 1)
              else None) = cost_model_spec ?cs"
    by (rule ext) (auto simp: c cost_model_spec_def set_ops_w_cost op_costs_keys_def)
  with assms show ?thesis
    by (simp add: build_edit_cost_def ct)
qed

text \<open>
  Claim C8, as stated, fails for the fixed-cost mode: with an \<^verbatim>\<open>--aln-score\<close> other than
  \<^verbatim>\<open>markov\<close> and \<^verbatim>\<open>edit\<close> the model is the constant table \<^verbatim>\<open>fixed_cigar\<close>, whatever the
  corpus is. For a corpus of one alignment \<^verbatim>\<open>10=3I\<close> the table gives Insertion 0.005, while
  the accumulated and normalized value of the claim is 1.
\<close>

theorem fixed_cost_model_counterexample:
  "build_alignment_model False (Some ''fixed'') False
     [\<lparr>query_name = ''r1'', reference_name = ''562:g/RpsE'', ref_tid = 562, ref_gene = ''RpsE'',
        is_secondary = False, is_supplementary = False, AS = 20, cigartuples = [(7, 10), (1, 3)]\<rparr>]
     = Inr (Fixed_model fixed_cigar)
   \<and> fixed_cigar 1 = Some (1 / 200)
   \<and> cost_model_spec (extract_cigars_all
     [\<lparr>query_name = ''r1'', reference_name = ''562:g/RpsE'', ref_tid = 562, ref_gene = ''RpsE'',
        is_secondary = False, is_supplementary = False, AS = 20, cigartuples = [(7, 10), (1, 3)]\<rparr>]) 1
     = Some 1"
  by (simp add: build_alignment_model_def fixed_cigar_def cost_model_spec_def
      extract_cigars_all_def op_length_def costed_length_def)

text \<open>
  Claim C8, amended. With \<^verbatim>\<open>--aln-score edit\<close> and no partition by gene, the model built by
  \<^verbatim>\<open>build_edit_cost\<close> gives each costed kind (codes 1, 2, 8, 5, 4) its total run length
  over the CIGARs of the primary alignments divided by the total run length of the costed
  kinds, and gives Match and SequenceMatch (codes 0 and 7) the value 1; when the costed total
  is zero the function raises \<^verbatim>\<open>ZeroDivisionError\<close>. With any \<^verbatim>\<open>--aln-score\<close> other than
  \<^verbatim>\<open>markov\<close> and \<^verbatim>\<open>edit\<close> the model is the constant table.
\<close>

theorem edit_cost_model:
  "(costed_length (extract_cigars_all sam) \<noteq> 0 \<longrightarrow>
      build_alignment_model False (Some ''edit'') False sam
        = Inr (Edit_model (Some (cost_model_spec (extract_cigars_all sam)))))
   \<and> (costed_length (extract_cigars_all sam) = 0 \<longrightarrow>
      build_alignment_model False (Some ''edit'') False sam = Inl ZeroDivisionError)
   \<and> (aln_score \<noteq> Some ''markov'' \<and> aln_score \<noteq> Some ''edit'' \<longrightarrow>
      build_alignment_model False aln_score by_gene sam = Inr (Fixed_model fixed_cigar))"
proof (intro conjI impI)
  assume "costed_length (extract_cigars_all sam) \<noteq> 0"
  then show "build_alignment_model False (Some ''edit'') False sam
      = Inr (Edit_model (Some (cost_model_spec (extract_cigars_all sam))))"
    by (simp add: build_alignment_model_def build_edit_cost_spec)
next
  assume z: "costed_length (extract_cigars_all sam) = 0"
  obtain c where "edit_cigars (extract_cigars_all sam) (\<lambda>OP. 0, 0) = (c, 0)"
    using edit_cigars_snd[of "extract_cigars_all sam" "\<lambda>OP. 0" 0] z
    by (cases "edit_cigars (extract_cigars_all sam) (\<lambda>OP. 0, 0)") simp
  then show "build_alignment_model False (Some ''edit'') False sam = Inl ZeroDivisionError"
    by (simp add: build_alignment_model_def build_edit_cost_def)
next
  assume "aln_score \<noteq> Some ''markov'' \<and> aln_score \<noteq> Some ''edit''"
  then show "build_alignment_model False aln_score by_gene sam = Inr (Fixed_model fixed_cigar)"
    by (simp add: build_alignment_model_def)
qed

theorem edit_cost_model_witness:
  "costed_length (extract_cigars_all
     [\<lparr>query_name = ''r1'', reference_name = ''562:g/RpsE'', ref_tid = 562, ref_gene = ''RpsE'',
        is_secondary = False, is_supplementary = False, AS = 20, cigartuples = [(7, 10), (1, 3)]\<rparr>]) = 3
   \<and> build_alignment_model False (Some ''edit'') False
     [\<lparr>query_name = ''r1'', reference_name = ''562:g/RpsE'', ref_tid = 562, ref_gene = ''RpsE'',
        is_secondary = False, is_supplementary = False, AS = 20, cigartuples = [(7, 10), (1, 3)]\<rparr>]
     = Inr (Edit_model (Some (cost_model_spec [[(7, 10), (1, 3)]])))
   \<and> cost_model_spec [[(7, 10), (1, 3)]] 1 = Some 1
   \<and> cost_model_spec [[(7, 10), (1, 3)]] 2 = Some 0
   \<and> cost_model_spec [[(7, 10), (1, 3)]] 7 = Some 1
   \<and> build_alignment_model False None False
     [\<lparr>query_name = ''r1'', reference_name = ''562:g/RpsE'', ref_tid = 562, ref_gene = ''RpsE'',
        is_secondary = False, is_supplementary = False, AS = 20, cigartuples = [(7, 10), (1, 3)]\<rparr>]
     = Inr (Fixed_model fixed_cigar)"
  using edit_cost_model [of
     "[\<lparr>query_name = ''r1'', reference_name = ''562:g/RpsE'', ref_tid = 562, ref_gene = ''RpsE'',
        is_secondary = False, is_supplementary = False, AS = 20, cigartuples = [(7, 10), (1, 3)]\<rparr>]" None False]
  by (simp add: extract_cigars_all_def costed_length_def cost_model_spec_def op_length_def)

section \<open>Properties of the likelihood table builder\<close>

lemma build_P_rgs_data_rows:
  "build_P_rgs_data False False sam = Inr (map (P_rgs_data_row False) (filter (\<lambda>a. 0 < AS a) sam))"
  by (induction sam) simp_all

lemma build_P_rgs_data_Inr:
  "build_P_rgs_data gid_name minimap2_AS sam = Inr rows \<Longrightarrow>
   rows = map (P_rgs_data_row minimap2_AS) (filter (\<lambda>a. 0 < AS a) sam)"
  by (induction sam arbitrary: rows) (auto split: if_splits sum.splits)

text \<open>
  Claim C5, as stated, fails: the loop of \<^verbatim>\<open>build_P_rgs_df\<close> tests the score only. A
  secondary and supplementary alignment with a positive score contributes a row.
\<close>

theorem build_P_rgs_data_secondary_counterexample:
  "is_secondary \<lparr>query_name = ''r1'', reference_name = ''562:g/RpsE'', ref_tid = 562,
       ref_gene = ''RpsE'', is_secondary = True, is_supplementary = True, AS = 20,
       cigartuples = [(7, 10), (1, 3)]\<rparr>
   \<and> build_P_rgs_data False False
       [\<lparr>query_name = ''r1'', reference_name = ''562:g/RpsE'', ref_tid = 562,
         ref_gene = ''RpsE'', is_secondary = True, is_supplementary = True, AS = 20,
         cigartuples = [(7, 10), (1, 3)]\<rparr>]
     = Inr [\<lparr>Read_ID_col = ''r1'', Target_ID_col = 562, log_P_col = None,
             cigar_col = Some [(7, 10), (1, 3)], Gene_col = ''RpsE'',
             Reference_col = ''562:g/RpsE'', aln_len_col = 13\<rparr>]"
  by (simp add: P_rgs_data_row_def get_aln_len_def)

text \<open>
  Claim C5, amended. The loop of \<^verbatim>\<open>build_P_rgs_df\<close> gives the table one row for each
  alignment whose raw score is greater than 0, in file order, and no row for any other
  alignment; the flags secondary and supplementary are not read. Without \<^verbatim>\<open>--gid-name\<close>
  and \<^verbatim>\<open>--minimap2-AS\<close> the loop never raises, and in every mode in which it returns, the
  rows are those of the alignments with a positive score.
\<close>

theorem build_P_rgs_data_positive_score:
  "build_P_rgs_data False False sam
     = Inr (map (P_rgs_data_row False) (filter (\<lambda>a. 0 < AS a) sam))
   \<and> (build_P_rgs_data gid_name minimap2_AS sam = Inr rows \<longrightarrow>
        rows = map (P_rgs_data_row minimap2_AS) (filter (\<lambda>a. 0 < AS a) sam))"
  using build_P_rgs_data_rows build_P_rgs_data_Inr by blast

theorem build_P_rgs_data_positive_score_witness:
  "build_P_rgs_data False True
       [\<lparr>query_name = ''r1'', reference_name = ''562:g/RpsE'', ref_tid = 562,
         ref_gene = ''RpsE'', is_secondary = True, is_supplementary = False, AS = 13,
         cigartuples = [(7, 10), (1, 3)]\<rparr>,
        \<lparr>query_name = ''r2'', reference_name = ''562:g/RpsE'', ref_tid = 562,
         ref_gene = ''RpsE'', is_secondary = False, is_supplementary = False, AS = 0,
         cigartuples = [(7, 10)]\<rparr>]
     = Inr [\<lparr>Read_ID_col = ''r1'', Target_ID_col = 562, log_P_col = Some (ln (1 / 2)),
             cigar_col = None, Gene_col = ''RpsE'', Reference_col = ''562:g/RpsE'',
             aln_len_col = 13\<rparr>]"
proof -
  let ?sam = "[\<lparr>query_name = ''r1'', reference_name = ''562:g/RpsE'', ref_tid = 562,
         ref_gene = ''RpsE'', is_secondary = True, is_supplementary = False, AS = 13,
         cigartuples = [(7, 10), (1, 3)]\<rparr>,
        \<lparr>query_name = ''r2'', reference_name = ''562:g/RpsE'', ref_tid = 562,
         ref_gene = ''RpsE'', is_secondary = False, is_supplementary = False, AS = 0,
         cigartuples = [(7, 10)]\<rparr>]"
  have "\<exists>rows. build_P_rgs_data False True ?sam = Inr rows"
    by (simp add: get_aln_len_def)
  then obtain rows where r: "build_P_rgs_data False True ?sam = Inr rows" ..
  with build_P_rgs_data_positive_score [of ?sam False True rows]
  have "rows = map (P_rgs_data_row True) (filter (\<lambda>a. 0 < AS a) ?sam)"
    by blast
  with r show ?thesis
    by (simp add: P_rgs_data_row_def get_aln_len_def)
qed

section \<open>Properties of the plausibility filter\<close>

lemma filter_pass_tid_plausible:
  assumes "N_reads P tid > 10 \<longrightarrow> N_genes G tid \<noteq> 0"
  shows "filter_pass_tid ar P G tid = Inr (plausible_spec ar P G tid)"
proof (cases "N_reads P tid > 10")
  case True
  with assms have "N_genes G tid \<noteq> 0" by simp
  with True show ?thesis
    by (simp add: filter_pass_tid_def plausible_spec_def get_expected_gene_hits_def
        expected_hits_def variance_hits_def Let_def)
next
  case False
  then show ?thesis
    by (auto simp: filter_pass_tid_def plausible_spec_def Let_def)
qed

lemma filter_pass_tid_error:
  assumes "N_reads P tid > 10" and "N_genes G tid = 0"
  shows "filter_pass_tid ar P G tid = Inl ZeroDivisionError"
  using assms by (simp add: filter_pass_tid_def get_expected_gene_hits_def)

lemma filter_pass_plausible:
  assumes "\<forall>tid \<in> set tids. N_reads P tid > 10 \<longrightarrow> N_genes G tid \<noteq> 0"
  shows "filter_pass ar P G tids = Inr (map (plausible_spec ar P G) tids)"
  using assms by (induction tids) (simp_all add: filter_pass_tid_plausible)

lemma filter_zip_map:
  "map fst (filter snd (zip xs (map f xs))) = filter f xs"
  by (induction xs) simp_all

lemma plausibility_filter_plausible:
  assumes "\<forall>tid \<in> set (map fst F). N_reads P tid > 10 \<longrightarrow> N_genes G tid \<noteq> 0"
  shows "plausibility_filter ar False P G F = Inr (filter (\<lambda>entry. plausible_spec ar P G (fst entry)) F)"
proof -
  have "map fst (filter snd (zip F (map (\<lambda>entry. plausible_spec ar P G (fst entry)) F)))
        = filter (\<lambda>entry. plausible_spec ar P G (fst entry)) F"
    by (rule filter_zip_map)
  then show ?thesis
    using filter_pass_plausible[OF assms, of ar]
    by (simp add: plausibility_filter_def comp_def)
qed

lemma filter_pass_Inr:
  "filter_pass ar P G tids = Inr bs \<Longrightarrow> bs = map (\<lambda>tid. filter_pass_tid ar P G tid = Inr True) tids"
  by (induction tids arbitrary: bs) (auto split: sum.splits)

lemma plausibility_filter_Inr:
  assumes "plausibility_filter ar False P G F = Inr F'"
  shows "F' = filter (\<lambda>entry. filter_pass_tid ar P G (fst entry) = Inr True) F"
proof -
  from assms obtain bs where bs: "filter_pass ar P G (map fst F) = Inr bs"
    and F': "F' = map fst (filter snd (zip F bs))"
    by (auto simp: plausibility_filter_def split: sum.splits)
  from filter_pass_Inr[OF bs]
  have "bs = map (\<lambda>entry. filter_pass_tid ar P G (fst entry) = Inr True) F"
    by (simp add: comp_def)
  with F' show ?thesis
    by (simp add: filter_zip_map)
qed

text \<open>
  Claim C3. In whatever arithmetic the expressions are evaluated (the doubles of the
  program, or the reals), and when every target of the support with more than 10
  supporting reads has at least one marker gene in the gene table (otherwise the filter
  raises), the plausibility filter keeps exactly the entries of \<open>F\<close> whose target
  satisfies the rule: with more than 10 distinct supporting reads,
  (genes hit / E > 0.7 or E - genes hit \<le> 3 V) and genes hit > 1, where \<open>E\<close> and \<open>V\<close> are
  the values of the two formulas in that arithmetic; with at most 10, at least one
  supporting read.
\<close>

theorem plausibility_filter_rule:
  "((\<forall>tid \<in> set (map fst F). N_reads P tid > 10 \<longrightarrow> N_genes G tid \<noteq> 0) \<longrightarrow>
      plausibility_filter ar False P G F
        = Inr (filter (\<lambda>entry. plausible_spec ar P G (fst entry)) F))
   \<and> ((N_reads P tid > 10 \<longrightarrow> N_genes G tid \<noteq> 0) \<longrightarrow>
      filter_pass_tid ar P G tid = Inr (plausible_spec ar P G tid))"
  using plausibility_filter_plausible filter_pass_tid_plausible by blast

theorem plausibility_filter_rule_witness:
  "plausibility_filter exact_arith False
     (map (\<lambda>r. \<lparr>Read_ID = r, Target_ID = 1, log_P = 0,
                  Gene = (if r \<in> {''r01'', ''r02''} then ''RpsE'' else ''RpsG'')\<rparr>)
          [''r01'', ''r02'', ''r03'', ''r04'', ''r05'', ''r06'', ''r07'', ''r08'', ''r09'', ''r10'', ''r11'']
      @ map (\<lambda>r. \<lparr>Read_ID = r, Target_ID = 2, log_P = 0, Gene = ''RpsE''\<rparr>)
          [''r01'', ''r02'', ''r03'', ''r04'', ''r05'', ''r06'', ''r07'', ''r08'', ''r09'', ''r10'', ''r11'']
      @ [\<lparr>Read_ID = ''r'', Target_ID = 3, log_P = 0, Gene = ''RpsE''\<rparr>])
     [(1, ''RpsE''), (1, ''RpsG''), (2, ''RpsE''), (2, ''RpsG''), (3, ''RpsE'')]
     [(1, 1 / 4), (2, 1 / 4), (3, 1 / 4), (4, 1 / 4)]
   = Inr [(1, 1 / 4), (3, 1 / 4)]"
proof -
  let ?P = "(map (\<lambda>r. \<lparr>Read_ID = r, Target_ID = 1, log_P = 0,
                  Gene = (if r \<in> {''r01'', ''r02''} then ''RpsE'' else ''RpsG'')\<rparr>)
          [''r01'', ''r02'', ''r03'', ''r04'', ''r05'', ''r06'', ''r07'', ''r08'', ''r09'', ''r10'', ''r11'']
      @ map (\<lambda>r. \<lparr>Read_ID = r, Target_ID = 2, log_P = 0, Gene = ''RpsE''\<rparr>)
          [''r01'', ''r02'', ''r03'', ''r04'', ''r05'', ''r06'', ''r07'', ''r08'', ''r09'', ''r10'', ''r11'']
      @ [\<lparr>Read_ID = ''r'', Target_ID = 3, log_P = 0, Gene = ''RpsE''\<rparr>])"
  let ?G = "[(1, ''RpsE''), (1, ''RpsG''), (2, ''RpsE''), (2, ''RpsG''), (3, ''RpsE'')] :: gene_stats"
  let ?F = "[(1, 1 / 4), (2, 1 / 4), (3, 1 / 4), (4, 1 / 4)] :: abundance"
  have "\<forall>tid \<in> set (map fst ?F). N_reads ?P tid > 10 \<longrightarrow> N_genes ?G tid \<noteq> 0"
    by (simp add: N_reads_def N_genes_def)
  with plausibility_filter_rule [of ?F ?P ?G exact_arith 1]
  have "plausibility_filter exact_arith False ?P ?G ?F
        = Inr (filter (\<lambda>entry. plausible_spec exact_arith ?P ?G (fst entry)) ?F)"
    by blast
  moreover have "plausible_spec exact_arith ?P ?G 1 \<and> \<not> plausible_spec exact_arith ?P ?G 2
      \<and> plausible_spec exact_arith ?P ?G 3 \<and> \<not> plausible_spec exact_arith ?P ?G 4"
    by (simp add: plausible_spec_def expected_hits_def variance_hits_def N_reads_def N_genes_def
        N_genes_hit_def exact_arith_def)
  ultimately show ?thesis
    by simp
qed

text \<open>
  Claim C4, as stated, fails: a target with 5 supporting reads, all on the same one of its
  10 marker genes, is kept by the filter. The test on the number of genes hit is made only
  for a target with more than 10 supporting reads.
\<close>

theorem five_reads_one_gene_counterexample:
  "N_reads (map (\<lambda>r. \<lparr>Read_ID = r, Target_ID = 7, log_P = 0, Gene = ''RpsE''\<rparr>)
          [''r1'', ''r2'', ''r3'', ''r4'', ''r5'']) 7 = 5
   \<and> N_genes_hit (map (\<lambda>r. \<lparr>Read_ID = r, Target_ID = 7, log_P = 0, Gene = ''RpsE''\<rparr>)
          [''r1'', ''r2'', ''r3'', ''r4'', ''r5'']) 7 = 1
   \<and> N_genes (map (\<lambda>g. (7, g)) (take 10 GENES)) 7 = 10
   \<and> (\<forall>ar. plausibility_filter ar False
       (map (\<lambda>r. \<lparr>Read_ID = r, Target_ID = 7, log_P = 0, Gene = ''RpsE''\<rparr>)
          [''r1'', ''r2'', ''r3'', ''r4'', ''r5''])
       (map (\<lambda>g. (7, g)) (take 10 GENES)) [(7, 1)]
     = Inr [(7, 1)])"
  by (simp add: plausibility_filter_def filter_pass_tid_def N_reads_def N_genes_hit_def
      N_genes_def GENES_def)

text \<open>
  Claim C4, amended. A target with exactly 5 supporting reads is kept by the plausibility
  filter, whatever the number of marker genes that its reads hit: the filter appends
  \<^verbatim>\<open>True\<close> for it, and every entry of \<open>F\<close> with this target is in the filtered \<open>F\<close>.
\<close>

theorem five_reads_retained:
  "N_reads P tid = 5 \<Longrightarrow>
   filter_pass_tid ar P G tid = Inr True
   \<and> (plausibility_filter ar False P G F = Inr F' \<longrightarrow> (tid, v) \<in> set F \<longrightarrow> (tid, v) \<in> set F')"
proof
  assume five: "N_reads P tid = 5"
  then show pass: "filter_pass_tid ar P G tid = Inr True"
    by (simp add: filter_pass_tid_def)
  show "plausibility_filter ar False P G F = Inr F' \<longrightarrow> (tid, v) \<in> set F \<longrightarrow> (tid, v) \<in> set F'"
  proof (intro impI)
    assume "plausibility_filter ar False P G F = Inr F'" and "(tid, v) \<in> set F"
    with plausibility_filter_Inr[of ar P G F F'] pass show "(tid, v) \<in> set F'"
      by simp
  qed
qed

theorem five_reads_retained_witness:
  "N_reads (map (\<lambda>r. \<lparr>Read_ID = r, Target_ID = 7, log_P = 0, Gene = ''RpsE''\<rparr>)
          [''r1'', ''r2'', ''r3'', ''r4'', ''r5'']) 7 = 5
   \<and> (\<forall>ar. filter_pass_tid ar (map (\<lambda>r. \<lparr>Read_ID = r, Target_ID = 7, log_P = 0, Gene = ''RpsE''\<rparr>)
          [''r1'', ''r2'', ''r3'', ''r4'', ''r5''])
       (map (\<lambda>g. (7, g)) (take 10 GENES)) 7 = Inr True)"
proof -
  have "N_reads (map (\<lambda>r. \<lparr>Read_ID = r, Target_ID = 7, log_P = 0, Gene = ''RpsE''\<rparr>)
          [''r1'', ''r2'', ''r3'', ''r4'', ''r5'']) 7 = 5"
    by (simp add: N_reads_def)
  with five_reads_retained [OF this] show ?thesis
    by blast
qed

section \<open>Properties of the EM step\<close>

subsection \<open>The exponential with underflow and the value of \<^verbatim>\<open>logSumExp\<close>\<close>

lemma half_least_double_pos: "0 < half_least_double"
  by (simp add: half_least_double_def)

lemma half_least_double_less_1: "half_least_double < 1"
proof -
  have "(1::real) < 2 ^ 1075" by (rule one_less_power) simp_all
  then show ?thesis by (simp add: half_least_double_def)
qed

lemma np_exp_nonneg: "0 \<le> np_exp x"
  by (simp add: np_exp_def)

lemma np_exp_le: "np_exp x \<le> exp x"
  by (simp add: np_exp_def)

lemma np_exp_ge: "exp x \<le> np_exp x + half_least_double"
  using half_least_double_pos by (simp add: np_exp_def)

lemma np_exp_0: "np_exp 0 = 1"
  using half_least_double_less_1 by (simp add: np_exp_def)

lemma np_exp_pos_iff: "np_exp x \<noteq> 0 \<longleftrightarrow> 0 < np_exp x"
  using np_exp_nonneg[of x] by linarith

lemma member_le_sum_list_real:
  fixes xs :: "real list"
  assumes "\<forall>x \<in> set xs. 0 \<le> x" and "y \<in> set xs"
  shows "y \<le> sum_list xs"
  using assms
proof (induction xs)
  case Nil
  then show ?case by simp
next
  case (Cons a xs)
  have nn: "0 \<le> sum_list xs" using Cons.prems(1) by (intro sum_list_nonneg) simp
  show ?case
  proof (cases "y = a")
    case True
    with nn show ?thesis by simp
  next
    case False
    with Cons.prems have "y \<in> set xs" by simp
    with Cons have "y \<le> sum_list xs" by simp
    moreover from Cons.prems(1) have "0 \<le> a" by simp
    ultimately show ?thesis by simp
  qed
qed

lemma lse_sum_ge_1:
  assumes "ns \<noteq> []"
  shows "1 \<le> sum_list (map (\<lambda>n. np_exp (n - Max (set ns))) ns)"
proof -
  have "Max (set ns) \<in> set ns" using assms by (intro Max_in) simp_all
  then have "np_exp (Max (set ns) - Max (set ns)) \<in> set (map (\<lambda>n. np_exp (n - Max (set ns))) ns)"
    by (intro image_eqI[where x = "Max (set ns)"] | simp)+
  moreover have "\<forall>x \<in> set (map (\<lambda>n. np_exp (n - Max (set ns))) ns). 0 \<le> x"
    by (auto simp: np_exp_nonneg)
  ultimately have "np_exp (Max (set ns) - Max (set ns)) \<le> sum_list (map (\<lambda>n. np_exp (n - Max (set ns))) ns)"
    by (rule member_le_sum_list_real[rotated])
  then show ?thesis by (simp add: np_exp_0)
qed

lemma logSumExp_lse: "ns \<noteq> [] \<Longrightarrow> logSumExp ns = Inr (lse ns)"
  by (simp add: logSumExp_def lse_def Let_def comp_def)

lemma exp_lse:
  assumes "ns \<noteq> []"
  shows "exp (lse ns) = sum_list (map (\<lambda>n. exp (Max (set ns)) * np_exp (n - Max (set ns))) ns)"
proof -
  have "0 < sum_list (map (\<lambda>n. np_exp (n - Max (set ns))) ns)"
    using lse_sum_ge_1[OF assms] by linarith
  then have "exp (lse ns) = exp (Max (set ns)) * sum_list (map (\<lambda>n. np_exp (n - Max (set ns))) ns)"
    by (simp add: lse_def exp_add)
  then show ?thesis by (simp add: sum_list_const_mult)
qed

lemma exp_lse_le:
  assumes "ns \<noteq> []"
  shows "exp (lse ns) \<le> sum_list (map exp ns)"
proof -
  have "exp (Max (set ns)) * np_exp (n - Max (set ns)) \<le> exp n" for n
  proof -
    have "exp (Max (set ns)) * np_exp (n - Max (set ns)) \<le> exp (Max (set ns)) * exp (n - Max (set ns))"
      by (intro mult_left_mono np_exp_le) simp
    also have "\<dots> = exp n" by (simp add: exp_add[symmetric])
    finally show ?thesis .
  qed
  then show ?thesis
    unfolding exp_lse[OF assms] by (intro sum_list_mono) simp
qed

lemma exp_Max_le_exp_lse:
  assumes "ns \<noteq> []"
  shows "exp (Max (set ns)) \<le> exp (lse ns)"
proof -
  have "0 \<le> ln (sum_list (map (\<lambda>n. np_exp (n - Max (set ns))) ns))"
    using lse_sum_ge_1[OF assms] by simp
  then show ?thesis by (simp add: lse_def)
qed

lemma le_lse:
  assumes "n \<in> set ns"
  shows "n \<le> lse ns"
proof -
  from assms have ne: "ns \<noteq> []" by auto
  have "n \<le> Max (set ns)" using assms by simp
  moreover have "Max (set ns) \<le> lse ns" using exp_Max_le_exp_lse[OF ne] by simp
  ultimately show ?thesis by linarith
qed

lemma sum_list_exp_le_lse:
  assumes "ns \<noteq> []"
  shows "sum_list (map exp ns) \<le> exp (lse ns) + real (length ns) * half_least_double * exp (Max (set ns))"
proof -
  have tm: "exp n \<le> exp (Max (set ns)) * np_exp (n - Max (set ns)) + half_least_double * exp (Max (set ns))" for n
  proof -
    have "exp n = exp (Max (set ns)) * exp (n - Max (set ns))" by (simp add: exp_add[symmetric])
    also have "\<dots> \<le> exp (Max (set ns)) * (np_exp (n - Max (set ns)) + half_least_double)"
      by (intro mult_left_mono np_exp_ge) simp
    finally show ?thesis by (simp add: algebra_simps)
  qed
  have "sum_list (map exp ns)
        \<le> sum_list (map (\<lambda>n. exp (Max (set ns)) * np_exp (n - Max (set ns)) + half_least_double * exp (Max (set ns))) ns)"
    by (intro sum_list_mono) (rule tm)
  also have "\<dots> = exp (lse ns) + real (length ns) * half_least_double * exp (Max (set ns))"
    by (simp add: sum_list_addf exp_lse[OF assms] sum_list_triv algebra_simps)
  finally show ?thesis .
qed

lemma map_err_Inr:
  "(\<And>x. x \<in> set xs \<Longrightarrow> f x = Inr (g x)) \<Longrightarrow> map_err f xs = Inr (map g xs)"
  by (induction xs) simp_all

lemma map2_map: "map2 f xs (map g xs) = map (\<lambda>x. f x (g x)) xs"
  by (induction xs) simp_all

lemma group_nonempty: "x \<in> set xs \<Longrightarrow> Q x \<Longrightarrow> map f (filter Q xs) \<noteq> []"
  by (auto simp: filter_empty_conv)

lemma read_sum_value:
  assumes "x \<in> set P_tgr"
  shows "logSumExp (map weighted (filter (\<lambda>y. Read_ID (fst y) = Read_ID (fst x)) P_tgr))
         = Inr (log_normalizer P_tgr (Read_ID (fst x)))"
proof -
  from assms have "map weighted (filter (\<lambda>y. Read_ID (fst y) = Read_ID (fst x)) P_tgr) \<noteq> []"
    by (rule group_nonempty) simp
  then show ?thesis
    unfolding log_normalizer_def by (rule logSumExp_lse)
qed

lemma sum_col_value:
  "map_err (\<lambda>x. logSumExp (map weighted (filter (\<lambda>y. Read_ID (fst y) = Read_ID (fst x)) P_tgr))) P_tgr
   = Inr (map (\<lambda>x. log_normalizer P_tgr (Read_ID (fst x))) P_tgr)"
  by (rule map_err_Inr) (rule read_sum_value)

lemma target_group_value:
  assumes "t \<in> set (target_keys P_tgr)"
  shows "logSumExp (map snd (filter (\<lambda>p. fst p = t)
            (map (\<lambda>x. (Target_ID (fst x), weighted x - log_normalizer P_tgr (Read_ID (fst x)))) P_tgr)))
         = Inr (lse (map (log_posterior P_tgr) (filter (\<lambda>x. Target_ID (fst x) = t) P_tgr)))"
proof -
  let ?grp = "filter (\<lambda>x. Target_ID (fst x) = t) P_tgr"
  have grp: "map snd (filter (\<lambda>p. fst p = t)
               (map (\<lambda>x. (Target_ID (fst x), weighted x - log_normalizer P_tgr (Read_ID (fst x)))) P_tgr))
             = map (log_posterior P_tgr) ?grp"
    by (simp add: filter_map comp_def log_posterior_def)
  from assms obtain x where "x \<in> set P_tgr" "Target_ID (fst x) = t"
    by (auto simp: target_keys_def)
  then have "map (log_posterior P_tgr) ?grp \<noteq> []" by (rule group_nonempty)
  then show ?thesis
    unfolding grp by (rule logSumExp_lse)
qed

lemma EM_step_value:
  "EM_step P F =
     Inr \<lparr>F_of = filter (\<lambda>entry. snd entry \<noteq> 0)
                   (map (\<lambda>t. (t, M_step_entry (merge_F P F) t)) (target_keys (merge_F P F))),
          P_tgr_sum_col = map (\<lambda>x. log_normalizer (merge_F P F) (Read_ID (fst x))) (merge_F P F)\<rparr>"
proof -
  let ?T = "merge_F P F"
  let ?n = "length (read_keys ?T)"
  let ?P_t_r = "map (\<lambda>x. (Target_ID (fst x), weighted x - log_normalizer ?T (Read_ID (fst x)))) ?T"
  have keys: "sorted_list_of_set (set (map fst ?P_t_r)) = target_keys ?T"
    by (simp add: target_keys_def comp_def)
  have entry: "(case logSumExp (map snd (filter (\<lambda>p. fst p = t) ?P_t_r)) of
                  Inl e \<Rightarrow> Inl e
                | Inr l \<Rightarrow> Inr (t, np_exp (l - ln (real ?n))))
               = Inr (t, M_step_entry ?T t)"
    if t: "t \<in> set (target_keys ?T)" for t
    by (simp add: target_group_value[OF t] M_step_entry_def)
  have agg: "map_err (\<lambda>t. case logSumExp (map snd (filter (\<lambda>p. fst p = t) ?P_t_r)) of
                              Inl e \<Rightarrow> Inl e
                            | Inr l \<Rightarrow> Inr (t, np_exp (l - ln (real ?n)))) (target_keys ?T)
             = Inr (map (\<lambda>t. (t, M_step_entry ?T t)) (target_keys ?T))"
    by (rule map_err_Inr) (rule entry)
  show ?thesis
    unfolding EM_step_def Let_def sum_col_value sum.case map2_map keys read_keys_def[symmetric]
      agg ..
qed

subsection \<open>The sum of the new \<open>F\<close>\<close>

text \<open>
  The exponentials of the posteriors of the rows of a read sum to at least 1, and to at most
  1 plus one \<open>half_least_double\<close> for each row; the entry of a target is the sum of the
  exponentials of the posteriors of its rows, divided by the number of reads, up to one
  \<open>half_least_double\<close> for each row and one for the entry.
\<close>

lemma sum_list_indicator_0:
  fixes c :: real
  shows "a \<notin> set ks \<Longrightarrow> sum_list (map (\<lambda>k. if a = k then c else 0) ks) = 0"
  by (induction ks) auto

lemma sum_list_indicator:
  fixes c :: real
  assumes "distinct ks" and "a \<in> set ks"
  shows "sum_list (map (\<lambda>k. if a = k then c else 0) ks) = c"
  using assms by (induction ks) (auto simp: sum_list_indicator_0)

lemma sum_list_regroup:
  fixes g :: "'a \<Rightarrow> real"
  assumes "distinct ks" and "key ` set xs \<subseteq> set ks"
  shows "sum_list (map (\<lambda>k. sum_list (map g (filter (\<lambda>x. key x = k) xs))) ks) = sum_list (map g xs)"
  using assms(2)
proof (induction xs)
  case Nil
  show ?case by simp
next
  case (Cons x xs)
  have "sum_list (map (\<lambda>k. sum_list (map g (filter (\<lambda>x. key x = k) (x # xs)))) ks)
        = sum_list (map (\<lambda>k. (if key x = k then g x else 0)
                              + sum_list (map g (filter (\<lambda>x. key x = k) xs))) ks)"
    by (intro arg_cong[where f = sum_list] map_cong refl) simp
  also have "\<dots> = sum_list (map (\<lambda>k. if key x = k then g x else 0) ks)
                  + sum_list (map (\<lambda>k. sum_list (map g (filter (\<lambda>x. key x = k) xs))) ks)"
    by (simp add: sum_list_addf)
  also have "\<dots> = g x + sum_list (map g xs)"
    using Cons assms(1) by (simp add: sum_list_indicator)
  finally show ?case by simp
qed

lemma sum_list_regroup_length:
  assumes "distinct ks" and "key ` set xs \<subseteq> set ks"
  shows "sum_list (map (\<lambda>k. real (length (filter (\<lambda>x. key x = k) xs))) ks) = real (length xs)"
proof -
  have "sum_list (map (\<lambda>k. sum_list (map (\<lambda>x. 1 :: real) (filter (\<lambda>x. key x = k) xs))) ks)
        = sum_list (map (\<lambda>x. 1 :: real) xs)"
    using assms by (rule sum_list_regroup)
  then show ?thesis by (simp add: sum_list_triv)
qed

lemma sum_list_divide_real:
  "sum_list (map (\<lambda>x. c x / d) xs) = sum_list (map c xs) / (d :: real)"
  by (induction xs) (simp_all add: add_divide_distrib)

lemma n_reads_pos: "P_tgr \<noteq> [] \<Longrightarrow> 0 < length (read_keys P_tgr)"
  by (simp add: read_keys_def)

lemma target_keys_empty: "target_keys [] = []"
  by (simp add: target_keys_def)

lemma log_posterior_le_0:
  assumes "x \<in> set P_tgr"
  shows "log_posterior P_tgr x \<le> 0"
proof -
  have "weighted x \<in> set (map weighted (filter (\<lambda>y. Read_ID (fst y) = Read_ID (fst x)) P_tgr))"
    using assms by simp
  then have "weighted x \<le> log_normalizer P_tgr (Read_ID (fst x))"
    unfolding log_normalizer_def by (rule le_lse)
  then show ?thesis by (simp add: log_posterior_def)
qed

lemma read_group_bounds:
  assumes "r \<in> set (read_keys P_tgr)"
  shows "1 \<le> sum_list (map (\<lambda>x. exp (log_posterior P_tgr x)) (filter (\<lambda>x. Read_ID (fst x) = r) P_tgr))"
    and "sum_list (map (\<lambda>x. exp (log_posterior P_tgr x)) (filter (\<lambda>x. Read_ID (fst x) = r) P_tgr))
         \<le> 1 + real (length (filter (\<lambda>x. Read_ID (fst x) = r) P_tgr)) * half_least_double"
proof -
  let ?grp = "filter (\<lambda>x. Read_ID (fst x) = r) P_tgr"
  let ?ns = "map weighted ?grp"
  let ?Z = "log_normalizer P_tgr r"
  from assms obtain x where "x \<in> set P_tgr" "Read_ID (fst x) = r"
    by (auto simp: read_keys_def)
  then have ne: "?ns \<noteq> []" by (rule group_nonempty)
  have Z: "?Z = lse ?ns" by (simp add: log_normalizer_def)
  have "map (\<lambda>x. exp (log_posterior P_tgr x)) ?grp = map (\<lambda>x. exp (weighted x) / exp ?Z) ?grp"
    by (rule map_cong) (simp_all add: log_posterior_def exp_diff)
  then have "sum_list (map (\<lambda>x. exp (log_posterior P_tgr x)) ?grp)
             = sum_list (map (\<lambda>x. exp (weighted x) / exp ?Z) ?grp)"
    by (rule arg_cong)
  also have "\<dots> = sum_list (map (\<lambda>x. exp (weighted x)) ?grp) / exp ?Z"
    by (rule sum_list_divide_real)
  also have "\<dots> = sum_list (map exp ?ns) / exp ?Z"
    by (simp add: comp_def)
  finally have eq: "sum_list (map (\<lambda>x. exp (log_posterior P_tgr x)) ?grp) = sum_list (map exp ?ns) / exp ?Z" .
  have lo: "exp ?Z \<le> sum_list (map exp ?ns)"
    unfolding Z using ne by (rule exp_lse_le)
  have "sum_list (map exp ?ns) \<le> exp ?Z + real (length ?ns) * half_least_double * exp (Max (set ?ns))"
    unfolding Z using ne by (rule sum_list_exp_le_lse)
  also have "\<dots> \<le> exp ?Z + real (length ?ns) * half_least_double * exp ?Z"
  proof -
    have "exp (Max (set ?ns)) \<le> exp ?Z"
      unfolding Z using ne by (rule exp_Max_le_exp_lse)
    moreover have "0 \<le> real (length ?ns) * half_least_double"
      using half_least_double_pos by simp
    ultimately have "real (length ?ns) * half_least_double * exp (Max (set ?ns))
                     \<le> real (length ?ns) * half_least_double * exp ?Z"
      by (rule mult_left_mono)
    then show ?thesis by simp
  qed
  finally have hi: "sum_list (map exp ?ns) \<le> exp ?Z * (1 + real (length ?grp) * half_least_double)"
    by (simp add: algebra_simps)
  from lo show "1 \<le> sum_list (map (\<lambda>x. exp (log_posterior P_tgr x)) ?grp)"
    unfolding eq by (simp add: le_divide_eq)
  from hi show "sum_list (map (\<lambda>x. exp (log_posterior P_tgr x)) ?grp)
      \<le> 1 + real (length ?grp) * half_least_double"
    unfolding eq by (simp add: divide_le_eq mult.commute)
qed

lemma sum_exp_posterior_bounds:
  shows "real (length (read_keys P_tgr)) \<le> sum_list (map (\<lambda>x. exp (log_posterior P_tgr x)) P_tgr)"
    and "sum_list (map (\<lambda>x. exp (log_posterior P_tgr x)) P_tgr)
         \<le> real (length (read_keys P_tgr)) + real (length P_tgr) * half_least_double"
proof -
  let ?g = "\<lambda>x. exp (log_posterior P_tgr x)"
  let ?grp = "\<lambda>r. filter (\<lambda>x. Read_ID (fst x) = r) P_tgr"
  have d: "distinct (read_keys P_tgr)" by (simp add: read_keys_def)
  have s: "(\<lambda>x. Read_ID (fst x)) ` set P_tgr \<subseteq> set (read_keys P_tgr)"
    by (simp add: read_keys_def)
  have eq: "sum_list (map ?g P_tgr) = sum_list (map (\<lambda>r. sum_list (map ?g (?grp r))) (read_keys P_tgr))"
    by (rule sum_list_regroup[OF d s, symmetric])
  have "sum_list (map (\<lambda>r. 1 :: real) (read_keys P_tgr))
        \<le> sum_list (map (\<lambda>r. sum_list (map ?g (?grp r))) (read_keys P_tgr))"
    by (intro sum_list_mono read_group_bounds(1))
  then show "real (length (read_keys P_tgr)) \<le> sum_list (map ?g P_tgr)"
    unfolding eq by (simp add: sum_list_triv)
  have "sum_list (map (\<lambda>r. sum_list (map ?g (?grp r))) (read_keys P_tgr))
        \<le> sum_list (map (\<lambda>r. 1 + real (length (?grp r)) * half_least_double) (read_keys P_tgr))"
    by (intro sum_list_mono read_group_bounds(2))
  also have "\<dots> = real (length (read_keys P_tgr))
                  + sum_list (map (\<lambda>r. real (length (?grp r))) (read_keys P_tgr)) * half_least_double"
    by (simp add: sum_list_addf sum_list_triv sum_list_mult_const)
  also have "\<dots> = real (length (read_keys P_tgr)) + real (length P_tgr) * half_least_double"
    by (simp only: sum_list_regroup_length[OF d s])
  finally show "sum_list (map ?g P_tgr)
      \<le> real (length (read_keys P_tgr)) + real (length P_tgr) * half_least_double"
    unfolding eq .
qed

lemma target_group_bounds:
  assumes "t \<in> set (target_keys P_tgr)"
  shows "exp (lse (map (log_posterior P_tgr) (filter (\<lambda>x. Target_ID (fst x) = t) P_tgr)))
         \<le> sum_list (map (\<lambda>x. exp (log_posterior P_tgr x)) (filter (\<lambda>x. Target_ID (fst x) = t) P_tgr))"
    and "sum_list (map (\<lambda>x. exp (log_posterior P_tgr x)) (filter (\<lambda>x. Target_ID (fst x) = t) P_tgr))
         \<le> exp (lse (map (log_posterior P_tgr) (filter (\<lambda>x. Target_ID (fst x) = t) P_tgr)))
            + real (length (filter (\<lambda>x. Target_ID (fst x) = t) P_tgr)) * half_least_double"
proof -
  let ?grp = "filter (\<lambda>x. Target_ID (fst x) = t) P_tgr"
  let ?ns = "map (log_posterior P_tgr) ?grp"
  from assms obtain x where "x \<in> set P_tgr" "Target_ID (fst x) = t"
    by (auto simp: target_keys_def)
  then have ne: "?ns \<noteq> []" by (rule group_nonempty)
  have e: "map exp ?ns = map (\<lambda>x. exp (log_posterior P_tgr x)) ?grp"
    by (simp add: comp_def)
  show "exp (lse ?ns) \<le> sum_list (map (\<lambda>x. exp (log_posterior P_tgr x)) ?grp)"
    using exp_lse_le[OF ne] unfolding e .
  have "set ?ns \<noteq> {}" using ne by (simp only: set_empty not_False_eq_True)
  then have "Max (set ?ns) \<in> set ?ns" by (intro Max_in finite_set)
  then have "Max (set ?ns) \<le> 0" by (auto simp: log_posterior_le_0)
  then have "exp (Max (set ?ns)) \<le> 1" by simp
  moreover have "0 \<le> real (length ?ns) * half_least_double"
    using half_least_double_pos by simp
  ultimately have "real (length ?ns) * half_least_double * exp (Max (set ?ns))
                   \<le> real (length ?ns) * half_least_double * 1"
    by (rule mult_left_mono)
  with sum_list_exp_le_lse[OF ne]
  show "sum_list (map (\<lambda>x. exp (log_posterior P_tgr x)) ?grp)
        \<le> exp (lse ?ns) + real (length ?grp) * half_least_double"
    unfolding e by simp
qed

lemma M_step_entry_bounds:
  assumes "0 < length (read_keys P_tgr)"
  shows "M_step_entry P_tgr t
         \<le> exp (lse (map (log_posterior P_tgr) (filter (\<lambda>x. Target_ID (fst x) = t) P_tgr)))
            / real (length (read_keys P_tgr))"
    and "exp (lse (map (log_posterior P_tgr) (filter (\<lambda>x. Target_ID (fst x) = t) P_tgr)))
            / real (length (read_keys P_tgr))
         \<le> M_step_entry P_tgr t + half_least_double"
proof -
  let ?L = "lse (map (log_posterior P_tgr) (filter (\<lambda>x. Target_ID (fst x) = t) P_tgr))"
  let ?n = "real (length (read_keys P_tgr))"
  have e: "exp (?L - ln ?n) = exp ?L / ?n"
    using assms by (simp add: exp_diff)
  show "M_step_entry P_tgr t \<le> exp ?L / ?n"
    using np_exp_le[of "?L - ln ?n"] unfolding e M_step_entry_def .
  show "exp ?L / ?n \<le> M_step_entry P_tgr t + half_least_double"
    using np_exp_ge[of "?L - ln ?n"] unfolding e M_step_entry_def .
qed

lemma sum_M_step_entry:
  assumes "P_tgr \<noteq> []"
  shows "\<bar>sum_list (map (M_step_entry P_tgr) (target_keys P_tgr)) - 1\<bar>
         \<le> real (length P_tgr + length (target_keys P_tgr)) * half_least_double"
proof -
  let ?n = "real (length (read_keys P_tgr))"
  let ?K = "target_keys P_tgr"
  let ?g = "\<lambda>x. exp (log_posterior P_tgr x)"
  let ?grp = "\<lambda>t. filter (\<lambda>x. Target_ID (fst x) = t) P_tgr"
  let ?A = "\<lambda>t. sum_list (map ?g (?grp t))"
  let ?L = "\<lambda>t. lse (map (log_posterior P_tgr) (?grp t))"
  let ?h = half_least_double
  have n0: "0 < length (read_keys P_tgr)" using assms by (rule n_reads_pos)
  then have n1: "1 \<le> ?n" by linarith
  have d: "distinct ?K" by (simp add: target_keys_def)
  have s: "(\<lambda>x. Target_ID (fst x)) ` set P_tgr \<subseteq> set ?K"
    by (simp add: target_keys_def)
  have A: "sum_list (map ?A ?K) = sum_list (map ?g P_tgr)"
    by (rule sum_list_regroup[OF d s])
  have C: "sum_list (map (\<lambda>t. real (length (?grp t))) ?K) = real (length P_tgr)"
    by (rule sum_list_regroup_length[OF d s])
  have up: "M_step_entry P_tgr t \<le> ?A t / ?n" if "t \<in> set ?K" for t
  proof -
    have "exp (?L t) / ?n \<le> ?A t / ?n"
      using target_group_bounds(1)[OF that] n0 by (simp add: divide_right_mono)
    with M_step_entry_bounds(1)[OF n0, of t] show ?thesis by linarith
  qed
  have lo: "(?A t - real (length (?grp t)) * ?h) / ?n - ?h \<le> M_step_entry P_tgr t" if "t \<in> set ?K" for t
  proof -
    have "?A t - real (length (?grp t)) * ?h \<le> exp (?L t)"
      using target_group_bounds(2)[OF that] by linarith
    then have "(?A t - real (length (?grp t)) * ?h) / ?n \<le> exp (?L t) / ?n"
      using n0 by (simp add: divide_right_mono)
    with M_step_entry_bounds(2)[OF n0, of t] show ?thesis by linarith
  qed
  have "sum_list (map (M_step_entry P_tgr) ?K) \<le> sum_list (map (\<lambda>t. ?A t / ?n) ?K)"
    by (intro sum_list_mono up)
  also have "\<dots> = sum_list (map ?g P_tgr) / ?n"
    by (simp only: sum_list_divide_real A)
  also have "\<dots> \<le> (?n + real (length P_tgr) * ?h) / ?n"
    using sum_exp_posterior_bounds(2)[of P_tgr] n0 by (simp add: divide_right_mono)
  also have "\<dots> = 1 + real (length P_tgr) * ?h / ?n"
    using n0 by (simp add: add_divide_distrib)
  also have "\<dots> \<le> 1 + real (length P_tgr) * ?h"
  proof -
    have "0 \<le> real (length P_tgr) * ?h" using half_least_double_pos by simp
    then have "real (length P_tgr) * ?h / ?n \<le> real (length P_tgr) * ?h / 1"
      using n0 n1 by (intro divide_left_mono) simp_all
    then show ?thesis by simp
  qed
  finally have upper: "sum_list (map (M_step_entry P_tgr) ?K) \<le> 1 + real (length P_tgr) * ?h" .
  have "1 - real (length P_tgr) * ?h - real (length ?K) * ?h
        \<le> (?n - real (length P_tgr) * ?h) / ?n - real (length ?K) * ?h"
  proof -
    have "0 \<le> real (length P_tgr) * ?h" using half_least_double_pos by simp
    then have "real (length P_tgr) * ?h / ?n \<le> real (length P_tgr) * ?h / 1"
      using n0 n1 by (intro divide_left_mono) simp_all
    moreover have "(?n - real (length P_tgr) * ?h) / ?n = 1 - real (length P_tgr) * ?h / ?n"
      using n0 by (simp add: diff_divide_distrib)
    ultimately show ?thesis by simp
  qed
  also have "\<dots> \<le> (sum_list (map ?g P_tgr) - real (length P_tgr) * ?h) / ?n - real (length ?K) * ?h"
    using sum_exp_posterior_bounds(1)[of P_tgr] n0 by (simp add: divide_right_mono)
  also have "\<dots> = sum_list (map (\<lambda>t. (?A t - real (length (?grp t)) * ?h) / ?n - ?h) ?K)"
    by (simp add: sum_list_subtractf sum_list_divide_real A C sum_list_triv sum_list_mult_const)
  also have "\<dots> \<le> sum_list (map (M_step_entry P_tgr) ?K)"
    by (intro sum_list_mono lo)
  finally have lower: "1 - real (length P_tgr) * ?h - real (length ?K) * ?h
                       \<le> sum_list (map (M_step_entry P_tgr) ?K)" .
  have "0 \<le> real (length ?K) * ?h" using half_least_double_pos by simp
  with upper lower show ?thesis
    by (simp add: abs_le_iff algebra_simps)
qed

lemma sum_list_filter_nonzero:
  fixes xs :: "('a \<times> real) list"
  shows "sum_list (map snd (filter (\<lambda>entry. snd entry \<noteq> 0) xs)) = sum_list (map snd xs)"
  by (induction xs) simp_all

subsection \<open>Steps without underflow\<close>

text \<open>
  On a table of at most 50 rows whose weighted values are at most 100 in absolute value, no
  exponential of the step underflows, and the step is the exact one: the entry of a target
  is the sum of the posteriors of its rows divided by the number of reads.
\<close>

lemma exp_500_less: "exp (500 :: real) < 2 ^ 1075"
proof -
  have "exp (500 :: real) = exp 1 ^ 500"
    using exp_of_nat_mult[of 500 "1 :: real"] by simp
  also have "\<dots> \<le> 3 ^ 500"
    by (intro power_mono exp_le) simp
  also have "\<dots> < (2 :: real) ^ 1075"
    by simp
  finally show ?thesis .
qed

lemma exp_1000_ge: "(2 :: real) ^ 1075 \<le> exp 1000"
proof -
  have "(5 / 2 :: real) \<le> exp 1"
    using exp_lower_Taylor_quadratic[of "1 :: real"] by simp
  then have "(5 / 2 :: real) ^ 1000 \<le> exp 1 ^ 1000"
    by (intro power_mono) simp_all
  also have "\<dots> = exp (1000 :: real)"
    using exp_of_nat_mult[of 1000 "1 :: real"] by simp
  finally have a: "(5 / 2 :: real) ^ 1000 \<le> exp 1000" .
  have "(2 :: real) ^ 1075 \<le> 2 ^ (5 * 250)"
    by (intro power_increasing) simp_all
  also have "\<dots> = ((2 :: real) ^ 5) ^ 250"
    by (rule power_mult)
  also have "\<dots> \<le> ((5 / 2 :: real) ^ 4) ^ 250"
    by (intro power_mono) (simp_all add: power_divide)
  also have "\<dots> = (5 / 2 :: real) ^ (4 * 250)"
    by (rule power_mult[symmetric])
  also have "\<dots> = (5 / 2 :: real) ^ 1000"
    by simp
  finally show ?thesis using a by linarith
qed

lemma half_least_double_less_iff: "half_least_double < exp x \<longleftrightarrow> exp (- x) < 2 ^ 1075"
proof -
  define c :: real where "c = 2 ^ 1075"
  have c: "0 < c" by (simp add: c_def)
  have h: "half_least_double = 1 / c" by (simp add: half_least_double_def c_def)
  have "half_least_double < exp x \<longleftrightarrow> exp (- x) < c"
    unfolding h using c by (simp add: exp_minus field_simps)
  then show ?thesis unfolding c_def .
qed

lemma np_exp_exact:
  assumes "- 500 \<le> x"
  shows "np_exp x = exp x"
proof -
  have "exp (- x) \<le> exp 500" using assms by simp
  with exp_500_less have "exp (- x) < 2 ^ 1075" by linarith
  then have "half_least_double < exp x"
    using half_least_double_less_iff[of x] by blast
  then show ?thesis by (simp add: np_exp_def)
qed

lemma np_exp_underflow:
  assumes "x \<le> - 1000"
  shows "np_exp x = 0"
proof -
  have "exp 1000 \<le> exp (- x)" using assms by simp
  with exp_1000_ge have "\<not> exp (- x) < 2 ^ 1075" by linarith
  then have "\<not> half_least_double < exp x"
    using half_least_double_less_iff[of x] by blast
  then show ?thesis by (simp add: np_exp_def)
qed

lemma sum_list_exp_nonneg: "0 \<le> sum_list (map exp (ns :: real list))"
  by (induction ns) simp_all

lemma sum_list_exp_pos: "ns \<noteq> [] \<Longrightarrow> 0 < sum_list (map exp (ns :: real list))"
proof (cases ns)
  case Nil
  assume "ns \<noteq> []"
  with Nil show ?thesis by simp
next
  case (Cons a as)
  have "0 < exp a" by simp
  with sum_list_exp_nonneg[of as] have "0 < exp a + sum_list (map exp as)"
    by linarith
  with Cons show ?thesis by simp
qed

lemma sum_list_exp_shift:
  "sum_list (map (\<lambda>n. exp (n - m)) ns) = exp (- m) * sum_list (map exp (ns :: real list))"
  by (induction ns) (simp_all add: exp_diff exp_minus field_simps)

lemma ln_shift: "0 < S \<Longrightarrow> m + ln (exp (- m) * S) = ln (S :: real)"
  by (simp add: ln_mult)

lemma lse_exact:
  assumes "ns \<noteq> []" and "\<forall>n \<in> set ns. lo \<le> n \<and> n \<le> hi" and "hi - lo \<le> 500"
  shows "lse ns = ln (sum_list (map exp ns))"
proof -
  let ?M = "Max (set ns)"
  have "set ns \<noteq> {}" using assms(1) by simp
  then have "?M \<in> set ns" by (intro Max_in finite_set)
  with assms(2) have M: "?M \<le> hi" by blast
  have "map (\<lambda>n. np_exp (n - ?M)) ns = map (\<lambda>n. exp (n - ?M)) ns"
  proof (rule map_cong[OF refl])
    fix n assume "n \<in> set ns"
    with assms(2) have "lo \<le> n" by blast
    with M assms(3) have "- 500 \<le> n - ?M" by linarith
    then show "np_exp (n - ?M) = exp (n - ?M)" by (rule np_exp_exact)
  qed
  then have "lse ns = ?M + ln (sum_list (map (\<lambda>n. exp (n - ?M)) ns))"
    by (simp only: lse_def)
  also have "\<dots> = ln (sum_list (map exp ns))"
    by (simp only: sum_list_exp_shift ln_shift[OF sum_list_exp_pos[OF assms(1)]])
  finally show ?thesis .
qed

lemma read_mass_pos: "x \<in> set P_tgr \<Longrightarrow> 0 < read_mass P_tgr (Read_ID (fst x))"
proof -
  assume x: "x \<in> set P_tgr"
  let ?grp = "filter (\<lambda>y. Read_ID (fst y) = Read_ID (fst x)) P_tgr"
  from x have "map weighted ?grp \<noteq> []" by (rule group_nonempty) simp
  from sum_list_exp_pos[OF this] show ?thesis
    by (simp add: read_mass_def comp_def)
qed

lemma posterior_pos: "x \<in> set P_tgr \<Longrightarrow> 0 < posterior P_tgr x"
  using read_mass_pos[of x P_tgr] by (simp add: posterior_def)

lemma exp_posterior:
  assumes "x \<in> set P_tgr"
  shows "exp (weighted x - ln (read_mass P_tgr (Read_ID (fst x)))) = posterior P_tgr x"
  using read_mass_pos[OF assms] by (simp add: posterior_def exp_diff)

lemma ln_nat_le:
  assumes "0 < n" and "n \<le> 50"
  shows "ln (real n) \<le> 49"
proof -
  have "ln (real n) \<le> real n - 1" using assms(1) by (intro ln_le_minus_one) simp
  with assms(2) show ?thesis by linarith
qed

lemma read_mass_bounds:
  assumes "x \<in> set P_tgr" and "\<forall>y \<in> set P_tgr. \<bar>weighted y\<bar> \<le> 100" and "length P_tgr \<le> 50"
  shows "- 100 \<le> ln (read_mass P_tgr (Read_ID (fst x)))"
    and "ln (read_mass P_tgr (Read_ID (fst x))) \<le> 149"
    and "weighted x \<le> ln (read_mass P_tgr (Read_ID (fst x)))"
proof -
  let ?grp = "filter (\<lambda>y. Read_ID (fst y) = Read_ID (fst x)) P_tgr"
  let ?rm = "read_mass P_tgr (Read_ID (fst x))"
  have pos: "0 < ?rm" using assms(1) by (rule read_mass_pos)
  have mem: "exp (weighted x) \<in> set (map (\<lambda>y. exp (weighted y)) ?grp)"
    using assms(1) by (intro image_eqI[where x = x] | simp)+
  have "\<forall>v \<in> set (map (\<lambda>y. exp (weighted y)) ?grp). 0 \<le> v" by auto
  from member_le_sum_list_real[OF this mem]
  have le: "exp (weighted x) \<le> ?rm" by (simp add: read_mass_def)
  then have "ln (exp (weighted x)) \<le> ln ?rm"
    using pos by (simp del: ln_exp)
  then show w: "weighted x \<le> ln ?rm" by simp
  from assms(1,2) have "- 100 \<le> weighted x" by (auto simp: abs_le_iff)
  with w show "- 100 \<le> ln ?rm" by linarith
  have "sum_list (map (\<lambda>y. exp (weighted y)) ?grp) \<le> sum_list (map (\<lambda>y. exp 100) ?grp)"
  proof (rule sum_list_mono)
    fix y assume "y \<in> set ?grp"
    with assms(2) have "weighted y \<le> 100" by (auto simp: abs_le_iff)
    then show "exp (weighted y) \<le> exp 100" by simp
  qed
  also have "\<dots> = real (length ?grp) * exp 100" by (simp add: sum_list_triv)
  also have "\<dots> \<le> 50 * exp 100"
  proof -
    have "length ?grp \<le> length P_tgr" by simp
    with assms(3) have "real (length ?grp) \<le> 50" by linarith
    then show ?thesis by simp
  qed
  finally have "?rm \<le> 50 * exp 100" by (simp add: read_mass_def)
  then have "ln ?rm \<le> ln (50 * exp 100)" using pos by simp
  also have "\<dots> = ln 50 + 100" by (simp add: ln_mult)
  also have "\<dots> \<le> 149"
    using ln_nat_le[of 50] by simp
  finally show "ln ?rm \<le> 149" .
qed

lemma log_normalizer_exact:
  assumes "x \<in> set P_tgr" and "\<forall>y \<in> set P_tgr. \<bar>weighted y\<bar> \<le> 100"
  shows "log_normalizer P_tgr (Read_ID (fst x)) = ln (read_mass P_tgr (Read_ID (fst x)))"
proof -
  let ?grp = "filter (\<lambda>y. Read_ID (fst y) = Read_ID (fst x)) P_tgr"
  from assms(1) have ne: "map weighted ?grp \<noteq> []" by (rule group_nonempty) simp
  have "\<forall>n \<in> set (map weighted ?grp). - 100 \<le> n \<and> n \<le> 100"
    using assms(2) by (auto simp: abs_le_iff)
  from lse_exact[OF ne this] show ?thesis
    by (simp add: log_normalizer_def read_mass_def comp_def)
qed

lemma log_posterior_exact:
  assumes "x \<in> set P_tgr" and "\<forall>y \<in> set P_tgr. \<bar>weighted y\<bar> \<le> 100" and "length P_tgr \<le> 50"
  shows "exp (log_posterior P_tgr x) = posterior P_tgr x"
    and "- 249 \<le> log_posterior P_tgr x"
    and "log_posterior P_tgr x \<le> 0"
proof -
  have lp: "log_posterior P_tgr x = weighted x - ln (read_mass P_tgr (Read_ID (fst x)))"
    by (simp add: log_posterior_def log_normalizer_exact[OF assms(1,2)])
  show "exp (log_posterior P_tgr x) = posterior P_tgr x"
    unfolding lp using assms(1) by (rule exp_posterior)
  from assms(1,2) have "- 100 \<le> weighted x" by (auto simp: abs_le_iff)
  with read_mass_bounds(2)[OF assms] show "- 249 \<le> log_posterior P_tgr x"
    unfolding lp by linarith
  from read_mass_bounds(3)[OF assms] show "log_posterior P_tgr x \<le> 0"
    unfolding lp by linarith
qed

lemma target_lse_exact:
  assumes "t \<in> set (target_keys P_tgr)"
    and "\<forall>y \<in> set P_tgr. \<bar>weighted y\<bar> \<le> 100" and "length P_tgr \<le> 50"
  shows "lse (map (log_posterior P_tgr) (filter (\<lambda>x. Target_ID (fst x) = t) P_tgr))
         = ln (target_mass P_tgr t)"
    and "- 249 \<le> ln (target_mass P_tgr t)"
    and "0 < target_mass P_tgr t"
proof -
  let ?grp = "filter (\<lambda>x. Target_ID (fst x) = t) P_tgr"
  from assms(1) obtain x where x: "x \<in> set P_tgr" "Target_ID (fst x) = t"
    by (auto simp: target_keys_def)
  then have ne: "map (log_posterior P_tgr) ?grp \<noteq> []" by (rule group_nonempty)
  have b: "\<forall>n \<in> set (map (log_posterior P_tgr) ?grp). - 249 \<le> n \<and> n \<le> 0"
    using log_posterior_exact(2,3)[OF _ assms(2,3)] by auto
  have e: "map exp (map (log_posterior P_tgr) ?grp) = map (posterior P_tgr) ?grp"
    unfolding map_map comp_def
    by (rule map_cong[OF refl]) (simp add: log_posterior_exact(1)[OF _ assms(2,3)])
  have "lse (map (log_posterior P_tgr) ?grp) = ln (sum_list (map exp (map (log_posterior P_tgr) ?grp)))"
    using ne b by (rule lse_exact) simp
  then show eq: "lse (map (log_posterior P_tgr) ?grp) = ln (target_mass P_tgr t)"
    unfolding e target_mass_def .
  have mem: "posterior P_tgr x \<in> set (map (posterior P_tgr) ?grp)"
    using x by (intro image_eqI[where x = x] | simp)+
  have "\<forall>v \<in> set (map (posterior P_tgr) ?grp). 0 \<le> v"
    by (auto intro: less_imp_le posterior_pos)
  from member_le_sum_list_real[OF this mem]
  have le: "posterior P_tgr x \<le> target_mass P_tgr t" by (simp add: target_mass_def)
  with posterior_pos[OF x(1)] show pos: "0 < target_mass P_tgr t" by linarith
  have "exp (- 249) \<le> posterior P_tgr x"
    using log_posterior_exact(1,2)[OF x(1) assms(2,3)] by (metis exp_le_cancel_iff)
  with le have "exp (- 249) \<le> target_mass P_tgr t" by linarith
  then have "ln (exp (- 249)) \<le> ln (target_mass P_tgr t)"
    using pos by (simp del: ln_exp)
  then show "- 249 \<le> ln (target_mass P_tgr t)" by simp
qed

lemma M_step_entry_exact:
  assumes "t \<in> set (target_keys P_tgr)"
    and "\<forall>y \<in> set P_tgr. \<bar>weighted y\<bar> \<le> 100" and "length P_tgr \<le> 50"
  shows "M_step_entry P_tgr t = target_mass P_tgr t / real (length (read_keys P_tgr))"
proof -
  let ?n = "length (read_keys P_tgr)"
  from assms(1) have "P_tgr \<noteq> []" by (auto simp: target_keys_empty)
  then have n: "0 < ?n" by (rule n_reads_pos)
  have "?n \<le> length P_tgr"
    unfolding read_keys_def using length_remdups_leq[of "map (\<lambda>x. Read_ID (fst x)) P_tgr"] by simp
  with assms(3) have "?n \<le> 50" by linarith
  with n have "ln (real ?n) \<le> 49" by (rule ln_nat_le)
  with target_lse_exact(2)[OF assms]
  have "- 500 \<le> ln (target_mass P_tgr t) - ln (real ?n)" by linarith
  then have "np_exp (ln (target_mass P_tgr t) - ln (real ?n)) = exp (ln (target_mass P_tgr t) - ln (real ?n))"
    by (rule np_exp_exact)
  also have "\<dots> = target_mass P_tgr t / real ?n"
    using target_lse_exact(3)[OF assms] n by (simp add: exp_diff)
  finally show ?thesis
    by (simp add: M_step_entry_def target_lse_exact(1)[OF assms])
qed

lemma EM_step_exact:
  assumes "\<forall>y \<in> set (merge_F P F). \<bar>weighted y\<bar> \<le> 100" and "length (merge_F P F) \<le> 50"
  shows "EM_step P F =
     Inr \<lparr>F_of = map (\<lambda>t. (t, target_mass (merge_F P F) t / real (length (read_keys (merge_F P F)))))
                       (target_keys (merge_F P F)),
          P_tgr_sum_col = map (\<lambda>x. ln (read_mass (merge_F P F) (Read_ID (fst x)))) (merge_F P F)\<rparr>"
proof -
  let ?T = "merge_F P F"
  let ?n = "length (read_keys ?T)"
  have col: "map (\<lambda>x. log_normalizer ?T (Read_ID (fst x))) ?T
             = map (\<lambda>x. ln (read_mass ?T (Read_ID (fst x)))) ?T"
    by (rule map_cong[OF refl]) (rule log_normalizer_exact[OF _ assms(1)])
  have ent: "map (\<lambda>t. (t, M_step_entry ?T t)) (target_keys ?T)
             = map (\<lambda>t. (t, target_mass ?T t / real ?n)) (target_keys ?T)"
    by (rule map_cong[OF refl]) (simp add: M_step_entry_exact[OF _ assms])
  have nz: "filter (\<lambda>entry. snd entry \<noteq> 0) (map (\<lambda>t. (t, target_mass ?T t / real ?n)) (target_keys ?T))
            = map (\<lambda>t. (t, target_mass ?T t / real ?n)) (target_keys ?T)"
  proof (rule filter_True, intro ballI)
    fix entry
    assume "entry \<in> set (map (\<lambda>t. (t, target_mass ?T t / real ?n)) (target_keys ?T))"
    then obtain t where t: "t \<in> set (target_keys ?T)"
      and entry: "entry = (t, target_mass ?T t / real ?n)"
      by auto
    from t have "?T \<noteq> []" by (auto simp: target_keys_empty)
    then have "0 < real ?n" using n_reads_pos by simp
    with target_lse_exact(3)[OF t assms] have "0 < target_mass ?T t / real ?n"
      by (rule divide_pos_pos)
    then have "target_mass ?T t / real ?n \<noteq> 0"
      by (rule less_imp_neq[symmetric])
    then show "snd entry \<noteq> 0"
      unfolding entry snd_conv .
  qed
  show ?thesis
    unfolding EM_step_value col ent nz ..
qed

lemma abs_ln_le:
  assumes "1 / 32 \<le> q" and "q \<le> 32"
  shows "\<bar>ln q\<bar> \<le> (50 :: real)"
proof -
  from assms(1) have q: "0 < q" by linarith
  have "ln q \<le> q - 1" using q by (rule ln_le_minus_one)
  moreover have "ln (1 / q) \<le> 1 / q - 1" using q by (intro ln_le_minus_one) simp
  moreover have "1 / q \<le> 32" using assms(1) q by (simp add: field_simps)
  moreover have "ln (1 / q) = - ln q" using q by (simp add: ln_div)
  ultimately show ?thesis using assms(2) by (simp add: abs_le_iff)
qed

lemma neg_ln_le: "1 / 32 \<le> q \<Longrightarrow> q \<le> 32 \<Longrightarrow> - ln q \<le> (50 :: real)"
  using abs_ln_le[of q] by (simp add: abs_le_iff)

lemma ln_le_50: "1 / 32 \<le> q \<Longrightarrow> q \<le> 32 \<Longrightarrow> ln q \<le> (50 :: real)"
  using abs_ln_le[of q] by (simp add: abs_le_iff)

lemma EM_step_exact_rows:
  assumes "\<forall>y \<in> set (merge_F P F). \<bar>log_P (fst y)\<bar> \<le> 50 \<and> 1 / 32 \<le> snd y \<and> snd y \<le> 32"
    and "length (merge_F P F) \<le> 50"
  shows "EM_step P F =
     Inr \<lparr>F_of = map (\<lambda>t. (t, target_mass (merge_F P F) t / real (length (read_keys (merge_F P F)))))
                       (target_keys (merge_F P F)),
          P_tgr_sum_col = map (\<lambda>x. ln (read_mass (merge_F P F) (Read_ID (fst x)))) (merge_F P F)\<rparr>"
proof (rule EM_step_exact[OF _ assms(2)], intro ballI)
  fix y assume "y \<in> set (merge_F P F)"
  with assms(1) have a: "\<bar>log_P (fst y)\<bar> \<le> 50" and b: "1 / 32 \<le> snd y" "snd y \<le> 32"
    by blast+
  from abs_ln_le[OF b] a show "\<bar>weighted y\<bar> \<le> 100"
    unfolding weighted_def by linarith
qed

lemmas EM_step_eval =
  merge_F_def target_keys_def read_keys_def target_mass_def posterior_def
  read_mass_def weighted_def

subsection \<open>Claim C1\<close>

text \<open>
  Claim C1, as stated, fails for a step that starts from an \<open>F\<close> with no target of the
  table in its support: the step returns the empty vector, whose sum is 0. The loop reaches
  such a step: for one read with two equally likely targets the converged \<open>F\<close> is
  \<open>(1/2, 1/2)\<close>, the threshold \<^verbatim>\<open>1 / n_reads\<close> is 1, no entry is at or above it, and the
  final step of \<^verbatim>\<open>EM_complete\<close> runs on the empty \<open>F\<close>.
\<close>

theorem EM_step_empty_support_counterexample:
  "EM_step [\<lparr>Read_ID = ''r1'', Target_ID = 1, log_P = 0, Gene = ''RpsE''\<rparr>,
      \<lparr>Read_ID = ''r1'', Target_ID = 2, log_P = 0, Gene = ''RpsE''\<rparr>] []
     = Inr \<lparr>F_of = [], P_tgr_sum_col = []\<rparr>
   \<and> sum_list (map snd ([] :: abundance)) = 0
   \<and> (\<forall>ar. EM_complete 2 ar True ''species''
       [\<lparr>Read_ID = ''r1'', Target_ID = 1, log_P = 0, Gene = ''RpsE''\<rparr>,
      \<lparr>Read_ID = ''r1'', Target_ID = 2, log_P = 0, Gene = ''RpsE''\<rparr>] []
       [(1, 1 / 2), (2, 1 / 2)]
     = Some ([EM_converged 2, Final_EM_step, Wrote_lineage, Collapsed_rank], Inr []))"
proof -
  let ?P = "[\<lparr>Read_ID = ''r1'', Target_ID = 1, log_P = 0, Gene = ''RpsE''\<rparr>,
      \<lparr>Read_ID = ''r1'', Target_ID = 2, log_P = 0, Gene = ''RpsE''\<rparr>]"
  have step0: "EM_step ?P [] = Inr \<lparr>F_of = [], P_tgr_sum_col = []\<rparr>"
    by (subst EM_step_exact_rows) (simp_all add: EM_step_eval)
  have step2: "EM_step ?P [(1, 1 / 2), (2, 1 / 2)]
      = Inr \<lparr>F_of = [(1, 1 / 2), (2, 1 / 2)], P_tgr_sum_col = [0, 0]\<rparr>"
    by (subst EM_step_exact_rows) (simp_all add: EM_step_eval)
  have loop2: "EM_loop 2 ?P [(1, 1 / 2), (2, 1 / 2)] MInf 1
      = Some (Inr (2, \<lparr>F_of = [(1, 1 / 2), (2, 1 / 2)], P_tgr_sum_col = [0, 0]\<rparr>))"
    by (simp add: numeral_2_eq_2 step2 compute_loglikelihood_def lli_threshold_def)
  have "EM_complete 2 ar True ''species'' ?P [] [(1, 1 / 2), (2, 1 / 2)]
      = Some ([EM_converged 2, Final_EM_step, Wrote_lineage, Collapsed_rank], Inr [])" for ar :: "'a arith"
    by (simp add: EM_complete_def plausibility_filter_def loop2 step0 collapse_rank_def
        TAXONOMY_RANKS_def del: One_nat_def)
  with step0 show ?thesis by simp
qed

text \<open>
  Claim C1, amended. For every EM step in which at least one row of the likelihood table
  has its target in the support of \<open>F\<close> (and \<open>F\<close> is positive on its support), \<^verbatim>\<open>EM_step\<close>
  returns; the new \<open>F\<close> consists of the entries
  \<open>np_exp (logSumExp of the posteriors of the rows of the target - log of the number of reads)\<close>
  of the targets of the merged table, in ascending order, without the entries that are
  exactly zero (an entry is zero when its exponential underflows); it sums to 1 up to one
  \<open>half_least_double = 2^-1075\<close> for each row of the merged table and each of its targets,
  in arithmetic that is exact but for the underflow of \<^verbatim>\<open>np.exp\<close>; and every entry that
  is left is positive.
\<close>

theorem EM_step_sums_to_one:
  assumes "\<forall>entry \<in> set F. 0 < snd entry" and "merge_F P F \<noteq> []"
  shows "\<exists>st. EM_step P F = Inr st
              \<and> F_of st = filter (\<lambda>entry. snd entry \<noteq> 0)
                             (map (\<lambda>t. (t, M_step_entry (merge_F P F) t)) (target_keys (merge_F P F)))
              \<and> \<bar>sum_list (map snd (F_of st)) - 1\<bar>
                  \<le> real (length (merge_F P F) + length (target_keys (merge_F P F))) * half_least_double
              \<and> (\<forall>entry \<in> set (F_of st). 0 < snd entry)"
proof -
  let ?T = "merge_F P F"
  let ?F' = "filter (\<lambda>entry. snd entry \<noteq> 0) (map (\<lambda>t. (t, M_step_entry ?T t)) (target_keys ?T))"
  have "sum_list (map snd ?F') = sum_list (map (M_step_entry ?T) (target_keys ?T))"
    by (simp add: sum_list_filter_nonzero comp_def)
  with sum_M_step_entry[OF assms(2)]
  have tol: "\<bar>sum_list (map snd ?F') - 1\<bar>
             \<le> real (length ?T + length (target_keys ?T)) * half_least_double"
    by simp
  have pos: "\<forall>entry \<in> set ?F'. 0 < snd entry"
  proof
    fix entry assume "entry \<in> set ?F'"
    then obtain t where "entry = (t, M_step_entry ?T t)" and "M_step_entry ?T t \<noteq> 0"
      by auto
    moreover have "0 \<le> M_step_entry ?T t" by (simp add: M_step_entry_def np_exp_nonneg)
    ultimately show "0 < snd entry" by simp
  qed
  show ?thesis
    unfolding EM_step_value using tol pos by simp
qed

theorem EM_step_sums_to_one_witness:
  "merge_F [\<lparr>Read_ID = ''r1'', Target_ID = 1, log_P = 0, Gene = ''RpsE''\<rparr>,
      \<lparr>Read_ID = ''r1'', Target_ID = 2, log_P = - 1000, Gene = ''RpsE''\<rparr>] [(1, 1 / 2), (2, 1 / 2)] \<noteq> []
   \<and> target_keys (merge_F [\<lparr>Read_ID = ''r1'', Target_ID = 1, log_P = 0, Gene = ''RpsE''\<rparr>,
      \<lparr>Read_ID = ''r1'', Target_ID = 2, log_P = - 1000, Gene = ''RpsE''\<rparr>] [(1, 1 / 2), (2, 1 / 2)]) = [1, 2]
   \<and> M_step_entry (merge_F [\<lparr>Read_ID = ''r1'', Target_ID = 1, log_P = 0, Gene = ''RpsE''\<rparr>,
      \<lparr>Read_ID = ''r1'', Target_ID = 2, log_P = - 1000, Gene = ''RpsE''\<rparr>] [(1, 1 / 2), (2, 1 / 2)]) 1 = 1
   \<and> M_step_entry (merge_F [\<lparr>Read_ID = ''r1'', Target_ID = 1, log_P = 0, Gene = ''RpsE''\<rparr>,
      \<lparr>Read_ID = ''r1'', Target_ID = 2, log_P = - 1000, Gene = ''RpsE''\<rparr>] [(1, 1 / 2), (2, 1 / 2)]) 2 = 0
   \<and> (\<exists>st. EM_step [\<lparr>Read_ID = ''r1'', Target_ID = 1, log_P = 0, Gene = ''RpsE''\<rparr>,
      \<lparr>Read_ID = ''r1'', Target_ID = 2, log_P = - 1000, Gene = ''RpsE''\<rparr>] [(1, 1 / 2), (2, 1 / 2)]
               = Inr st
             \<and> F_of st = [(1, 1)]
             \<and> \<bar>sum_list (map snd (F_of st)) - 1\<bar> \<le> 4 * half_least_double)"
proof -
  let ?P = "[\<lparr>Read_ID = ''r1'', Target_ID = 1, log_P = 0, Gene = ''RpsE''\<rparr>,
      \<lparr>Read_ID = ''r1'', Target_ID = 2, log_P = - 1000, Gene = ''RpsE''\<rparr>]"
  let ?F = "[(1, 1 / 2), (2, 1 / 2)] :: abundance"
  have h1: "\<forall>entry \<in> set ?F. 0 < snd entry" by simp
  have h2: "merge_F ?P ?F \<noteq> []" by (simp add: merge_F_def)
  have k: "target_keys (merge_F ?P ?F) = [1, 2]"
    by (simp add: merge_F_def target_keys_def)
  have m1: "M_step_entry (merge_F ?P ?F) 1 = 1"
    by (simp add: M_step_entry_def log_posterior_def log_normalizer_def lse_def
      EM_step_eval np_exp_0 np_exp_underflow)
  have m2: "M_step_entry (merge_F ?P ?F) 2 = 0"
    by (simp add: M_step_entry_def log_posterior_def log_normalizer_def lse_def
      EM_step_eval np_exp_0 np_exp_underflow)
  have len: "length (merge_F ?P ?F) = 2" by (simp add: merge_F_def)
  from EM_step_sums_to_one [OF h1 h2]
  obtain st where st: "EM_step ?P ?F = Inr st"
    and f: "F_of st = filter (\<lambda>entry. snd entry \<noteq> 0)
                        (map (\<lambda>t. (t, M_step_entry (merge_F ?P ?F) t)) (target_keys (merge_F ?P ?F)))"
    and s: "\<bar>sum_list (map snd (F_of st)) - 1\<bar>
            \<le> real (length (merge_F ?P ?F) + length (target_keys (merge_F ?P ?F))) * half_least_double"
    by blast
  from f have "F_of st = [(1, 1)]" unfolding k by (simp add: m1 m2)
  moreover from s have "\<bar>sum_list (map snd (F_of st)) - 1\<bar> \<le> 4 * half_least_double"
    unfolding k len by simp
  ultimately show ?thesis using st h2 k m1 m2 by blast
qed

section \<open>Properties of the EM loop\<close>

lemma EM_step_total: "\<exists>st. EM_step P F = Inr st"
  by (simp add: EM_step_value)

lemma F_iter_step:
  assumes "EM_step P (F_iter P F0 k) = Inr st"
  shows "F_iter P F0 (Suc k) = F_of st"
  using assms by simp

lemma lli_iter_step:
  assumes "1 \<le> i" and "EM_step P (F_iter P F0 (i - 1)) = Inr st"
  shows "lli_iter P F0 i = compute_loglikelihood st"
  using assms by (simp add: lli_iter_def)

lemma not_below_threshold_first: "\<not> below_threshold P F0 1"
  by (simp add: below_threshold_def lli_before_def)

lemma EM_loop_char:
  "EM_loop fuel P (F_iter P F0 m) (lli_before P F0 (Suc m)) (Suc m) = Some (Inr (k, st)) \<longleftrightarrow>
     (Suc m \<le> k \<and> k < Suc m + fuel \<and> below_threshold P F0 k
      \<and> (\<forall>j. Suc m \<le> j \<and> j < k \<longrightarrow> \<not> below_threshold P F0 j)
      \<and> EM_step P (F_iter P F0 (k - 1)) = Inr st)"
proof (induction fuel arbitrary: m)
  case 0
  show ?case by simp
next
  case (Suc fuel)
  obtain st_i where st_i: "EM_step P (F_iter P F0 m) = Inr st_i"
    using EM_step_total by blast
  have lli: "lli_iter P F0 (Suc m) = compute_loglikelihood st_i"
    using st_i by (simp add: lli_iter_def)
  have test: "ext_less (ext_minus (compute_loglikelihood st_i) (lli_before P F0 (Suc m))) lli_threshold
              \<longleftrightarrow> below_threshold P F0 (Suc m)"
    unfolding below_threshold_def lli ..
  have unfold: "EM_loop (Suc fuel) P (F_iter P F0 m) (lli_before P F0 (Suc m)) (Suc m)
      = (if below_threshold P F0 (Suc m) then Some (Inr (Suc m, st_i))
         else EM_loop fuel P (F_of st_i) (Fin (compute_loglikelihood st_i)) (Suc m + 1))"
    unfolding EM_loop.simps st_i sum.case Let_def test ..
  show ?case
  proof (cases "below_threshold P F0 (Suc m)")
    case True
    then have lhs: "EM_loop (Suc fuel) P (F_iter P F0 m) (lli_before P F0 (Suc m)) (Suc m)
                    = Some (Inr (Suc m, st_i))"
      unfolding unfold by (simp only: if_True)
    show ?thesis
    proof
      assume "EM_loop (Suc fuel) P (F_iter P F0 m) (lli_before P F0 (Suc m)) (Suc m) = Some (Inr (k, st))"
      with lhs have "k = Suc m" and "st = st_i" by simp_all
      with True st_i show "Suc m \<le> k \<and> k < Suc m + Suc fuel \<and> below_threshold P F0 k
          \<and> (\<forall>j. Suc m \<le> j \<and> j < k \<longrightarrow> \<not> below_threshold P F0 j)
          \<and> EM_step P (F_iter P F0 (k - 1)) = Inr st"
        by auto
    next
      assume r: "Suc m \<le> k \<and> k < Suc m + Suc fuel \<and> below_threshold P F0 k
          \<and> (\<forall>j. Suc m \<le> j \<and> j < k \<longrightarrow> \<not> below_threshold P F0 j)
          \<and> EM_step P (F_iter P F0 (k - 1)) = Inr st"
      have "k = Suc m"
      proof (rule ccontr)
        assume "k \<noteq> Suc m"
        with r have "Suc m \<le> Suc m \<and> Suc m < k" by linarith
        with r True show False by blast
      qed
      moreover from this r st_i have "st = st_i" by simp
      ultimately
      show "EM_loop (Suc fuel) P (F_iter P F0 m) (lli_before P F0 (Suc m)) (Suc m) = Some (Inr (k, st))"
        using lhs by simp
    qed
  next
    case False
    have Fi: "F_of st_i = F_iter P F0 (Suc m)"
      using st_i by simp
    have li: "Fin (compute_loglikelihood st_i) = lli_before P F0 (Suc (Suc m))"
      unfolding lli_before_def lli[symmetric] by simp
    have lhs: "EM_loop (Suc fuel) P (F_iter P F0 m) (lli_before P F0 (Suc m)) (Suc m)
               = EM_loop fuel P (F_iter P F0 (Suc m)) (lli_before P F0 (Suc (Suc m))) (Suc (Suc m))"
      unfolding unfold Fi li using False by (simp only: if_False Suc_eq_plus1[symmetric])
    have IH: "EM_loop fuel P (F_iter P F0 (Suc m)) (lli_before P F0 (Suc (Suc m))) (Suc (Suc m)) = Some (Inr (k, st))
       \<longleftrightarrow> (Suc (Suc m) \<le> k \<and> k < Suc (Suc m) + fuel \<and> below_threshold P F0 k
          \<and> (\<forall>j. Suc (Suc m) \<le> j \<and> j < k \<longrightarrow> \<not> below_threshold P F0 j)
          \<and> EM_step P (F_iter P F0 (k - 1)) = Inr st)"
      by (rule Suc.IH)
    have "(Suc (Suc m) \<le> k \<and> k < Suc (Suc m) + fuel \<and> below_threshold P F0 k
          \<and> (\<forall>j. Suc (Suc m) \<le> j \<and> j < k \<longrightarrow> \<not> below_threshold P F0 j)
          \<and> EM_step P (F_iter P F0 (k - 1)) = Inr st)
       \<longleftrightarrow> (Suc m \<le> k \<and> k < Suc m + Suc fuel \<and> below_threshold P F0 k
          \<and> (\<forall>j. Suc m \<le> j \<and> j < k \<longrightarrow> \<not> below_threshold P F0 j)
          \<and> EM_step P (F_iter P F0 (k - 1)) = Inr st)"
      (is "?A \<longleftrightarrow> ?B")
    proof
      assume a: ?A
      have "\<not> below_threshold P F0 j" if "Suc m \<le> j \<and> j < k" for j
      proof (cases "j = Suc m")
        case True
        with False show ?thesis by simp
      next
        case False
        with that have "Suc (Suc m) \<le> j \<and> j < k" by linarith
        with a show ?thesis by blast
      qed
      moreover from a have "Suc m \<le> k" and "k < Suc m + Suc fuel" by linarith+
      ultimately show ?B using a by blast
    next
      assume b: ?B
      with False have "k \<noteq> Suc m" by blast
      with b have "Suc (Suc m) \<le> k" and "k < Suc (Suc m) + fuel" by linarith+
      moreover have "\<not> below_threshold P F0 j" if "Suc (Suc m) \<le> j \<and> j < k" for j
      proof -
        from that have "Suc m \<le> j \<and> j < k" by linarith
        with b show ?thesis by blast
      qed
      ultimately show ?A using b by blast
    qed
    with lhs IH show ?thesis by (simp only:)
  qed
qed

lemma first_below_iff:
  "first_below P F0 k \<longleftrightarrow>
     below_threshold P F0 k \<and> (\<forall>j. 1 \<le> j \<and> j < k \<longrightarrow> \<not> below_threshold P F0 j)"
  by (auto simp: first_below_def list_all_iff)

lemma EM_loop_no_error: "EM_loop fuel P F lli i \<noteq> Some (Inl e)"
proof (induction fuel arbitrary: F lli i)
  case 0
  show ?case by simp
next
  case (Suc fuel)
  obtain st where "EM_step P F = Inr st" using EM_step_total by blast
  with Suc show ?case by (simp add: Let_def)
qed

text \<open>
  The loop of \<^verbatim>\<open>EM_complete\<close> never stops in its first iteration, never raises, and
  returns at iteration \<open>k\<close> exactly when \<open>k\<close> is the first iteration in which the value
  of \<^verbatim>\<open>compute_loglikelihood\<close> exceeds that of the iteration before by less than 0.01
  (and the fuel reaches \<open>k\<close>).
\<close>

theorem EM_loop_stops_at_first_below:
  "\<not> below_threshold P F 1
   \<and> EM_loop fuel P F MInf 1 \<noteq> Some (Inl e)
   \<and> (EM_loop fuel P F MInf 1 = Some (Inr (k, st)) \<longleftrightarrow>
        (2 \<le> k \<and> k \<le> fuel \<and> first_below P F k \<and> EM_step P (F_iter P F (k - 1)) = Inr st))"
proof (intro conjI)
  show n1: "\<not> below_threshold P F 1" by (rule not_below_threshold_first)
  show "EM_loop fuel P F MInf 1 \<noteq> Some (Inl e)" by (rule EM_loop_no_error)
  have start: "F_iter P F 0 = F" "lli_before P F (Suc 0) = MInf"
    by (simp_all add: lli_before_def)
  have char: "EM_loop fuel P F MInf (Suc 0) = Some (Inr (k, st)) \<longleftrightarrow>
         (Suc 0 \<le> k \<and> k < Suc 0 + fuel \<and> below_threshold P F k
          \<and> (\<forall>j. Suc 0 \<le> j \<and> j < k \<longrightarrow> \<not> below_threshold P F j)
          \<and> EM_step P (F_iter P F (k - 1)) = Inr st)"
    using EM_loop_char[of fuel P F 0 k st] unfolding start .
  have "(Suc 0 \<le> k \<and> k < Suc 0 + fuel \<and> below_threshold P F k
          \<and> (\<forall>j. Suc 0 \<le> j \<and> j < k \<longrightarrow> \<not> below_threshold P F j)
          \<and> EM_step P (F_iter P F (k - 1)) = Inr st)
        \<longleftrightarrow> (2 \<le> k \<and> k \<le> fuel \<and> first_below P F k \<and> EM_step P (F_iter P F (k - 1)) = Inr st)"
    (is "?A \<longleftrightarrow> ?B")
  proof
    assume a: ?A
    with n1 have "k \<noteq> 1" by auto
    with a have "2 \<le> k" and "k \<le> fuel" by linarith+
    moreover from a have "first_below P F k"
      unfolding first_below_iff by simp
    ultimately show ?B using a by blast
  next
    assume b: ?B
    then have "Suc 0 \<le> k" and "k < Suc 0 + fuel" by linarith+
    moreover from b have "below_threshold P F k
        \<and> (\<forall>j. Suc 0 \<le> j \<and> j < k \<longrightarrow> \<not> below_threshold P F j)"
      unfolding first_below_iff by simp
    ultimately show ?A using b by blast
  qed
  with char show "EM_loop fuel P F MInf 1 = Some (Inr (k, st)) \<longleftrightarrow>
        (2 \<le> k \<and> k \<le> fuel \<and> first_below P F k \<and> EM_step P (F_iter P F (k - 1)) = Inr st)"
    by (simp only: One_nat_def)
qed


theorem EM_loop_stops_at_first_below_witness:
  "EM_loop 2 [\<lparr>Read_ID = ''r1'', Target_ID = 7, log_P = 0, Gene = ''RpsE''\<rparr>] [(7, 1)] MInf 1
     = Some (Inr (2, \<lparr>F_of = [(7, 1)], P_tgr_sum_col = [0]\<rparr>))
   \<and> first_below [\<lparr>Read_ID = ''r1'', Target_ID = 7, log_P = 0, Gene = ''RpsE''\<rparr>] [(7, 1)] 2"
proof -
  let ?P = "[\<lparr>Read_ID = ''r1'', Target_ID = 7, log_P = 0, Gene = ''RpsE''\<rparr>]"
  have step: "EM_step ?P [(7, 1)] = Inr \<lparr>F_of = [(7, 1)], P_tgr_sum_col = [0]\<rparr>"
    by (subst EM_step_exact_rows) (simp_all add: EM_step_eval)
  have loop: "EM_loop 2 ?P [(7, 1)] MInf 1 = Some (Inr (2, \<lparr>F_of = [(7, 1)], P_tgr_sum_col = [0]\<rparr>))"
    by (simp add: numeral_2_eq_2 step compute_loglikelihood_def lli_threshold_def)
  with EM_loop_stops_at_first_below [of ?P "[(7, 1)]" 2 ZeroDivisionError 2
      "\<lparr>F_of = [(7, 1)], P_tgr_sum_col = [0]\<rparr>"]
  have "first_below ?P [(7, 1)] 2" by blast
  with loop show ?thesis by blast
qed

lemma ln_245_256: "ln (5 / 8) + ln (7 / 16) + ln (7 / 16) - (ln (1 / 2) + ln (1 / 2) + ln (1 / 2)) = ln (245 / 256 :: real)"
proof -
  have a: "ln (5 / 8 :: real) + ln (7 / 16) = ln (35 / 128)"
    using ln_mult[of "5 / 8 :: real" "7 / 16"] by simp
  have b: "ln (35 / 128 :: real) + ln (7 / 16) = ln (245 / 2048)"
    using ln_mult[of "35 / 128 :: real" "7 / 16"] by simp
  have c: "ln (1 / 2 :: real) + ln (1 / 2) = ln (1 / 4)"
    using ln_mult[of "1 / 2 :: real" "1 / 2"] by simp
  have d: "ln (1 / 4 :: real) + ln (1 / 2) = ln (1 / 8)"
    using ln_mult[of "1 / 4 :: real" "1 / 2"] by simp
  have e: "ln (245 / 2048 :: real) - ln (1 / 8) = ln (245 / 256)"
    using ln_div[of "245 / 2048 :: real" "1 / 8"] by simp
  show ?thesis unfolding a b c d e ..
qed

lemma ln_35_32: "ln (5 / 8) + ln (7 / 16) - (ln (1 / 2) + ln (1 / 2)) = ln (35 / 32 :: real)"
proof -
  have a: "ln (5 / 8 :: real) + ln (7 / 16) = ln (35 / 128)"
    using ln_mult[of "5 / 8 :: real" "7 / 16"] by simp
  have c: "ln (1 / 2 :: real) + ln (1 / 2) = ln (1 / 4)"
    using ln_mult[of "1 / 2 :: real" "1 / 2"] by simp
  have e: "ln (35 / 128 :: real) - ln (1 / 4) = ln (35 / 32)"
    using ln_div[of "35 / 128 :: real" "1 / 4"] by simp
  show ?thesis unfolding a c e ..
qed

lemma ln_245_256_neg: "ln (245 / 256 :: real) < 0"
  by simp

lemma ln_35_32_ge: "1 / 100 \<le> ln (35 / 32 :: real)"
proof -
  have "exp (1 / 100 :: real) \<le> 1 + 1 / 100 + (1 / 100)\<^sup>2"
    by (rule exp_bound) simp_all
  also have "\<dots> \<le> 35 / 32" by (simp add: power2_eq_square)
  finally have e: "exp (1 / 100 :: real) \<le> 35 / 32" .
  have "(1 / 100 \<le> ln (35 / 32 :: real)) = (exp (1 / 100 :: real) \<le> 35 / 32)"
    by (rule ln_ge_iff) simp
  with e show ?thesis by blast
qed

text \<open>
  Claim C2: the quantity that the loop compares is not the total data log-likelihood.
  \<^verbatim>\<open>compute_loglikelihood\<close> sums the column of the normalizing constants over the rows of
  \<^verbatim>\<open>P_tgr\<close>, so the constant of a read is counted once for each of its candidate targets.
  For a read \<open>r1\<close> with the one target 1 and a read \<open>r2\<close> with the targets 1 and 2 (likelihoods
  1/4 and 3/4), from the uniform \<open>F\<close>: the loop returns at iteration 2, because the value of
  \<^verbatim>\<open>compute_loglikelihood\<close> changes by \<open>ln (245/256) < 0\<close>; the total data log-likelihood
  (the sum over the reads of their normalizing constants) rises by \<open>ln (35/32)\<close>, which is
  not below the threshold 0.01, between the same two iterations.
\<close>

theorem EM_loop_stops_on_row_sum:
  "EM_loop (Suc (Suc fuel))
     [\<lparr>Read_ID = ''r1'', Target_ID = 1, log_P = 0, Gene = ''RpsE''\<rparr>,
      \<lparr>Read_ID = ''r2'', Target_ID = 1, log_P = ln (1 / 4), Gene = ''RpsE''\<rparr>,
      \<lparr>Read_ID = ''r2'', Target_ID = 2, log_P = ln (3 / 4), Gene = ''RpsE''\<rparr>]
     [(1, 1 / 2), (2, 1 / 2)] MInf 1
   = Some (Inr (2, \<lparr>F_of = [(1, 19 / 28), (2, 9 / 28)],
                     P_tgr_sum_col = [ln (5 / 8), ln (7 / 16), ln (7 / 16)]\<rparr>))
   \<and> F_iter
     [\<lparr>Read_ID = ''r1'', Target_ID = 1, log_P = 0, Gene = ''RpsE''\<rparr>,
      \<lparr>Read_ID = ''r2'', Target_ID = 1, log_P = ln (1 / 4), Gene = ''RpsE''\<rparr>,
      \<lparr>Read_ID = ''r2'', Target_ID = 2, log_P = ln (3 / 4), Gene = ''RpsE''\<rparr>]
     [(1, 1 / 2), (2, 1 / 2)] 1 = [(1, 5 / 8), (2, 3 / 8)]
   \<and> lli_iter
     [\<lparr>Read_ID = ''r1'', Target_ID = 1, log_P = 0, Gene = ''RpsE''\<rparr>,
      \<lparr>Read_ID = ''r2'', Target_ID = 1, log_P = ln (1 / 4), Gene = ''RpsE''\<rparr>,
      \<lparr>Read_ID = ''r2'', Target_ID = 2, log_P = ln (3 / 4), Gene = ''RpsE''\<rparr>]
     [(1, 1 / 2), (2, 1 / 2)] 2
     - lli_iter
     [\<lparr>Read_ID = ''r1'', Target_ID = 1, log_P = 0, Gene = ''RpsE''\<rparr>,
      \<lparr>Read_ID = ''r2'', Target_ID = 1, log_P = ln (1 / 4), Gene = ''RpsE''\<rparr>,
      \<lparr>Read_ID = ''r2'', Target_ID = 2, log_P = ln (3 / 4), Gene = ''RpsE''\<rparr>]
     [(1, 1 / 2), (2, 1 / 2)] 1 = ln (245 / 256)
   \<and> ln (245 / 256 :: real) < lli_threshold
   \<and> data_loglikelihood_spec
     [\<lparr>Read_ID = ''r1'', Target_ID = 1, log_P = 0, Gene = ''RpsE''\<rparr>,
      \<lparr>Read_ID = ''r2'', Target_ID = 1, log_P = ln (1 / 4), Gene = ''RpsE''\<rparr>,
      \<lparr>Read_ID = ''r2'', Target_ID = 2, log_P = ln (3 / 4), Gene = ''RpsE''\<rparr>]
     [(1, 5 / 8), (2, 3 / 8)]
     - data_loglikelihood_spec
     [\<lparr>Read_ID = ''r1'', Target_ID = 1, log_P = 0, Gene = ''RpsE''\<rparr>,
      \<lparr>Read_ID = ''r2'', Target_ID = 1, log_P = ln (1 / 4), Gene = ''RpsE''\<rparr>,
      \<lparr>Read_ID = ''r2'', Target_ID = 2, log_P = ln (3 / 4), Gene = ''RpsE''\<rparr>]
     [(1, 1 / 2), (2, 1 / 2)] = ln (35 / 32)
   \<and> lli_threshold \<le> ln (35 / 32 :: real)
   \<and> EM_complete (Suc (Suc fuel)) ar False ''species''
     [\<lparr>Read_ID = ''r1'', Target_ID = 1, log_P = 0, Gene = ''RpsE''\<rparr>,
      \<lparr>Read_ID = ''r2'', Target_ID = 1, log_P = ln (1 / 4), Gene = ''RpsE''\<rparr>,
      \<lparr>Read_ID = ''r2'', Target_ID = 2, log_P = ln (3 / 4), Gene = ''RpsE''\<rparr>] G
     [(1, 1 / 2), (2, 1 / 2)]
     = Some ([EM_converged 2, Final_EM_step, Wrote_lineage, Collapsed_rank], Inr [(1, 1)])"
proof -
  let ?P = "[\<lparr>Read_ID = ''r1'', Target_ID = 1, log_P = 0, Gene = ''RpsE''\<rparr>,
      \<lparr>Read_ID = ''r2'', Target_ID = 1, log_P = ln (1 / 4), Gene = ''RpsE''\<rparr>,
      \<lparr>Read_ID = ''r2'', Target_ID = 2, log_P = ln (3 / 4), Gene = ''RpsE''\<rparr>]"
  let ?st1 = "\<lparr>F_of = [(1, 5 / 8), (2, 3 / 8)], P_tgr_sum_col = [ln (1 / 2), ln (1 / 2), ln (1 / 2)]\<rparr>"
  let ?st2 = "\<lparr>F_of = [(1, 19 / 28), (2, 9 / 28)], P_tgr_sum_col = [ln (5 / 8), ln (7 / 16), ln (7 / 16)]\<rparr>"
  have step1: "EM_step ?P [(1, 1 / 2), (2, 1 / 2)] = Inr ?st1"
    by (subst EM_step_exact_rows) (simp_all add: EM_step_eval abs_ln_le neg_ln_le ln_le_50 exp_add)
  have step2: "EM_step ?P [(1, 5 / 8), (2, 3 / 8)] = Inr ?st2"
    by (subst EM_step_exact_rows) (simp_all add: EM_step_eval abs_ln_le neg_ln_le ln_le_50 exp_add)
  have l1: "compute_loglikelihood ?st1 = ln (1 / 2) + ln (1 / 2) + ln (1 / 2)"
    by (simp add: compute_loglikelihood_def)
  have l2: "compute_loglikelihood ?st2 = ln (5 / 8) + ln (7 / 16) + ln (7 / 16)"
    by (simp add: compute_loglikelihood_def)
  have delta: "compute_loglikelihood ?st2 - compute_loglikelihood ?st1 = ln (245 / 256)"
    unfolding l1 l2 by (rule ln_245_256)
  have thr: "lli_threshold = 1 / 100" by (simp add: lli_threshold_def)
  have below: "ln (245 / 256 :: real) < lli_threshold"
    unfolding thr using ln_245_256_neg by linarith
  have it1: "F_iter ?P [(1, 1 / 2), (2, 1 / 2)] 1 = [(1, 5 / 8), (2, 3 / 8)]"
    by (simp add: step1)
  have li1: "lli_iter ?P [(1, 1 / 2), (2, 1 / 2)] 1 = compute_loglikelihood ?st1"
    by (simp add: lli_iter_def step1)
  have li2: "lli_iter ?P [(1, 1 / 2), (2, 1 / 2)] 2 = compute_loglikelihood ?st2"
    using it1 by (simp add: lli_iter_def step2)
  have loop: "EM_loop (Suc (Suc fuel)) ?P [(1, 1 / 2), (2, 1 / 2)] MInf 1 = Some (Inr (2, ?st2))"
    using below unfolding delta[symmetric] by (simp add: step1 step2 del: One_nat_def)
  have d0: "data_loglikelihood_spec ?P [(1, 1 / 2), (2, 1 / 2)] = ln (1 / 2) + ln (1 / 2)"
    by (simp add: data_loglikelihood_spec_def EM_step_eval exp_add)
  have d1: "data_loglikelihood_spec ?P [(1, 5 / 8), (2, 3 / 8)] = ln (5 / 8) + ln (7 / 16)"
    by (simp add: data_loglikelihood_spec_def EM_step_eval exp_add)
  have dd: "data_loglikelihood_spec ?P [(1, 5 / 8), (2, 3 / 8)]
            - data_loglikelihood_spec ?P [(1, 1 / 2), (2, 1 / 2)] = ln (35 / 32)"
    unfolding d0 d1 by (rule ln_35_32)
  have above: "lli_threshold \<le> ln (35 / 32 :: real)"
    unfolding thr using ln_35_32_ge by linarith
  have pass: "plausibility_filter ar False ?P G [(1, 1 / 2), (2, 1 / 2)] = Inr [(1, 1 / 2), (2, 1 / 2)]"
    by (simp add: plausibility_filter_def filter_pass_tid_def N_reads_def)
  have fin: "EM_step ?P [(1, 19 / 28)]
             = Inr \<lparr>F_of = [(1, 1)], P_tgr_sum_col = [ln (19 / 28), ln (19 / 112)]\<rparr>"
    by (subst EM_step_exact_rows) (simp_all add: EM_step_eval abs_ln_le neg_ln_le ln_le_50 exp_add)
  have complete: "EM_complete (Suc (Suc fuel)) ar False ''species'' ?P G [(1, 1 / 2), (2, 1 / 2)]
      = Some ([EM_converged 2, Final_EM_step, Wrote_lineage, Collapsed_rank], Inr [(1, 1)])"
    by (simp add: EM_complete_def pass loop fin collapse_rank_def TAXONOMY_RANKS_def
        del: One_nat_def EM_loop.simps)
  from loop it1 delta below dd above complete show ?thesis
    unfolding li1 li2 by blast
qed

section \<open>Properties of the whole run: the rank option\<close>

lemma collapse_rank_invalid:
  "rank \<notin> set TAXONOMY_RANKS \<Longrightarrow> collapse_rank rank = Inl (ValueError rank_message)"
  by (simp add: collapse_rank_def)

lemma collapse_rank_Inl:
  "collapse_rank rank = Inl e \<Longrightarrow> rank \<notin> set TAXONOMY_RANKS \<and> e = ValueError rank_message"
  by (auto simp: collapse_rank_def split: if_splits)

lemma EM_loop_index: "EM_loop fuel P F MInf 1 = Some (Inr (i, st)) \<Longrightarrow> 2 \<le> i"
  using EM_loop_stops_at_first_below[of P F fuel ZeroDivisionError i st] by blast

lemma filter_pass_tid_Inl: "filter_pass_tid ar P G tid = Inl e \<Longrightarrow> e = ZeroDivisionError"
  by (auto simp: filter_pass_tid_def get_expected_gene_hits_def split: if_splits)

lemma filter_pass_Inl: "filter_pass ar P G tids = Inl e \<Longrightarrow> e = ZeroDivisionError"
  by (induction tids) (auto split: sum.splits dest: filter_pass_tid_Inl)

lemma plausibility_filter_Inl: "plausibility_filter ar nof P G F = Inl e \<Longrightarrow> e = ZeroDivisionError"
  by (auto simp: plausibility_filter_def split: if_splits sum.splits dest: filter_pass_Inl)

lemma EM_complete_converged:
  assumes "length (remdups (map Read_ID P)) \<noteq> 0"
    and "plausibility_filter ar nof P G F = Inr F1"
    and "EM_loop fuel P F1 MInf 1 = Some (Inr (i, st))"
    and "EM_step P (filter (\<lambda>entry. snd entry \<ge> 1 / real (length (remdups (map Read_ID P)))) (F_of st)) = Inr st'"
  shows "EM_complete fuel ar nof rank P G F =
     (case collapse_rank rank of
        Inl e \<Rightarrow> Some ([EM_converged i, Final_EM_step, Wrote_lineage], Inl e)
      | Inr keep_ranks \<Rightarrow>
          Some ([EM_converged i, Final_EM_step, Wrote_lineage, Collapsed_rank], Inr (F_of st')))"
  using assms by (simp add: EM_complete_def Let_def del: One_nat_def)

lemma EM_complete_cases:
  assumes "EM_complete fuel ar nof rank P G F = Some (tr, res)"
  shows "(tr = [] \<and> res = Inl ZeroDivisionError)
       \<or> (\<exists>i e. 2 \<le> i \<and> tr = [EM_converged i, Final_EM_step, Wrote_lineage]
                \<and> collapse_rank rank = Inl e \<and> res = Inl e)
       \<or> (\<exists>i keep final_F. 2 \<le> i \<and> tr = [EM_converged i, Final_EM_step, Wrote_lineage, Collapsed_rank]
                \<and> collapse_rank rank = Inr keep \<and> res = Inr final_F)"
proof (cases "length (remdups (map Read_ID P)) = 0")
  case True
  with assms show ?thesis by (simp add: EM_complete_def)
next
  case n: False
  show ?thesis
  proof (cases "plausibility_filter ar nof P G F")
    case (Inl e)
    with plausibility_filter_Inl[OF Inl] assms n show ?thesis
      by (simp add: EM_complete_def)
  next
    case F1: (Inr F1)
    show ?thesis
    proof (cases "EM_loop fuel P F1 MInf 1")
      case None
      with assms n F1 show ?thesis by (simp add: EM_complete_def)
    next
      case (Some r)
      show ?thesis
      proof (cases r)
        case (Inl e)
        with Some EM_loop_no_error[of fuel P F1 MInf 1 e] show ?thesis by simp
      next
        case (Inr ist)
        obtain i st where ist: "ist = (i, st)" by (cases ist)
        have loop: "EM_loop fuel P F1 MInf 1 = Some (Inr (i, st))"
          using Some Inr ist by simp
        have i: "2 \<le> i" using loop by (rule EM_loop_index)
        obtain st' where st': "EM_step P (filter (\<lambda>entry. snd entry \<ge> 1 / real (length (remdups (map Read_ID P)))) (F_of st)) = Inr st'"
          using EM_step_total by blast
        note eq = EM_complete_converged[OF n F1 loop st', of rank]
        show ?thesis
        proof (cases "collapse_rank rank")
          case (Inl e)
          with assms eq have "tr = [EM_converged i, Final_EM_step, Wrote_lineage]" and "res = Inl e"
            by simp_all
          with i Inl show ?thesis by blast
        next
          case (Inr keep)
          with assms eq
          have "tr = [EM_converged i, Final_EM_step, Wrote_lineage, Collapsed_rank]"
            and "res = Inr (F_of st')"
            by simp_all
          with i Inr show ?thesis by blast
        qed
      qed
    qed
  qed
qed


lemma init_F_Inl: "init_F t = Inl e \<Longrightarrow> e = ZeroDivisionError"
  by (auto simp: init_F_def split: if_splits)

lemma build_alignment_model_Inl:
  "build_alignment_model mm2 score by_gene s = Inl e \<Longrightarrow> e = ZeroDivisionError \<or> e = KeyError"
  by (auto simp: build_alignment_model_def build_transition_mats_def build_edit_cost_def
      extract_cigars_per_gene_def Let_def split: if_splits sum.splits prod.splits)

lemma build_P_rgs_data_Inl:
  "build_P_rgs_data gid mm2 s = Inl e \<Longrightarrow> e = ZeroDivisionError \<or> e = NameError"
  by (induction s) (auto split: if_splits sum.splits)

text \<open>
  Claim C9, as stated, fails: nothing tests the rank before \<^verbatim>\<open>collapse_rank\<close>, which
  \<^verbatim>\<open>EM_complete\<close> calls after the loop has converged. A run with the rank \<^verbatim>\<open>strain\<close>
  runs the aligner, builds the alignment model and the likelihood table, iterates the EM to
  convergence, makes the final step and writes the lineage report, and only then raises.
\<close>

theorem invalid_rank_counterexample:
  "''strain'' \<notin> set TAXONOMY_RANKS
   \<and> (\<forall>ar. main 2 ar \<lparr>arg_sam_input = None, arg_keep_alignments = False, arg_minimap2_AS = False,
        arg_aln_score = Some ''markov'', arg_aln_score_gene = False, arg_gid_name = False,
        arg_nof = False, arg_rank = ''strain''\<rparr>
       \<lparr>in_sam = [\<lparr>query_name = ''r1'', reference_name = ''562:g/RpsE'', ref_tid = 562,
                  ref_gene = ''RpsE'', is_secondary = False, is_supplementary = False,
                  AS = 20, cigartuples = [(7, 10), (1, 3)]\<rparr>],
        in_tax_ids = [562],
        in_gene_stats_df = [(562, ''RpsE'')],
        in_finish_P_rgs_df = (\<lambda>model rows.
           map (\<lambda>r. \<lparr>Read_ID = Read_ID_col r, Target_ID = Target_ID_col r, log_P = 0,
                       Gene = Gene_col r\<rparr>) rows)\<rparr>
     = Some ([Ran_minimap2, Loaded_taxonomy, Initialized_F, Built_alignment_model, Built_P_rgs_df,
              EM_converged 2, Final_EM_step, Wrote_lineage],
             Inl (ValueError rank_message)))"
proof -
  let ?P = "[\<lparr>Read_ID = ''r1'', Target_ID = 562, log_P = 0, Gene = ''RpsE''\<rparr>]"
  have step: "EM_step ?P [(562, 1)] = Inr \<lparr>F_of = [(562, 1)], P_tgr_sum_col = [0]\<rparr>"
    by (subst EM_step_exact_rows) (simp_all add: EM_step_eval)
  have loop: "EM_loop 2 ?P [(562, 1)] MInf 1
      = Some (Inr (2, \<lparr>F_of = [(562, 1)], P_tgr_sum_col = [0]\<rparr>))"
    by (simp add: numeral_2_eq_2 step compute_loglikelihood_def lli_threshold_def)
  have pass: "plausibility_filter ar False ?P [(562, ''RpsE'')] [(562, 1)] = Inr [(562, 1)]"
    for ar :: "'a arith"
    by (simp add: plausibility_filter_def filter_pass_tid_def N_reads_def)
  have em: "EM_complete 2 ar False ''strain'' ?P [(562, ''RpsE'')] [(562, 1)]
      = Some ([EM_converged 2, Final_EM_step, Wrote_lineage], Inl (ValueError rank_message))"
    for ar :: "'a arith"
    by (simp add: EM_complete_def pass loop step collapse_rank_def TAXONOMY_RANKS_def
        del: One_nat_def)
  have "main 2 ar \<lparr>arg_sam_input = None, arg_keep_alignments = False, arg_minimap2_AS = False,
        arg_aln_score = Some ''markov'', arg_aln_score_gene = False, arg_gid_name = False,
        arg_nof = False, arg_rank = ''strain''\<rparr>
       \<lparr>in_sam = [\<lparr>query_name = ''r1'', reference_name = ''562:g/RpsE'', ref_tid = 562,
                  ref_gene = ''RpsE'', is_secondary = False, is_supplementary = False,
                  AS = 20, cigartuples = [(7, 10), (1, 3)]\<rparr>],
        in_tax_ids = [562],
        in_gene_stats_df = [(562, ''RpsE'')],
        in_finish_P_rgs_df = (\<lambda>model rows.
           map (\<lambda>r. \<lparr>Read_ID = Read_ID_col r, Target_ID = Target_ID_col r, log_P = 0,
                       Gene = Gene_col r\<rparr>) rows)\<rparr>
     = Some ([Ran_minimap2, Loaded_taxonomy, Initialized_F, Built_alignment_model, Built_P_rgs_df,
              EM_converged 2, Final_EM_step, Wrote_lineage],
             Inl (ValueError rank_message))" for ar :: "'a arith"
    by (simp add: main_def init_F_def build_alignment_model_def build_transition_mats_def
        P_rgs_data_row_def get_aln_len_def em)
  then show ?thesis
    by (simp add: TAXONOMY_RANKS_def)
qed

text \<open>
  Claim C9, amended. With a rank that is not in the vocabulary, \<^verbatim>\<open>collapse_rank\<close> raises a
  \<^verbatim>\<open>ValueError\<close> whose message lists the recognized ranks, and a run that returns never
  ends with a result. When the run ends with that \<^verbatim>\<open>ValueError\<close>, it has before
  initialized \<open>F\<close>, built the alignment model and the likelihood table, iterated the EM
  loop to convergence (at least two iterations), made the final step and written the
  lineage report.
\<close>

theorem invalid_rank_fails_after_EM:
  assumes "arg_rank a \<notin> set TAXONOMY_RANKS" and "main fuel ar a inp = Some (tr, res)"
  shows "collapse_rank (arg_rank a) = Inl (ValueError rank_message)
       \<and> (\<forall>final_F. res \<noteq> Inr final_F)
       \<and> (\<forall>m. res = Inl (ValueError m) \<longrightarrow>
              m = rank_message
              \<and> (\<exists>tr0 i. 2 \<le> i
                    \<and> tr = tr0 @ [Initialized_F, Built_alignment_model, Built_P_rgs_df,
                                   EM_converged i, Final_EM_step, Wrote_lineage]))"
proof -
  let ?tr1 = "(if arg_sam_input a = None then [Ran_minimap2] else []) @ [Loaded_taxonomy]"
  have bad: "collapse_rank (arg_rank a) = Inl (ValueError rank_message)"
    using assms(1) by (rule collapse_rank_invalid)
  have rest: "(\<forall>final_F. res \<noteq> Inr final_F)
       \<and> (\<forall>m. res = Inl (ValueError m) \<longrightarrow>
              m = rank_message
              \<and> (\<exists>tr0 i. 2 \<le> i
                    \<and> tr = tr0 @ [Initialized_F, Built_alignment_model, Built_P_rgs_df,
                                   EM_converged i, Final_EM_step, Wrote_lineage]))"
  proof (cases "init_F (in_tax_ids inp)")
    case (Inl e)
    with init_F_Inl[OF Inl] assms(2) show ?thesis
      by (auto simp: main_def Let_def)
  next
    case F: (Inr F)
    show ?thesis
    proof (cases "build_alignment_model (arg_minimap2_AS a) (arg_aln_score a) (arg_aln_score_gene a) (in_sam inp)")
      case (Inl e)
      with build_alignment_model_Inl[OF Inl] assms(2) F show ?thesis
        by (auto simp: main_def Let_def)
    next
      case model: (Inr model)
      show ?thesis
      proof (cases "build_P_rgs_data (arg_gid_name a) (arg_minimap2_AS a) (in_sam inp)")
        case (Inl e)
        with build_P_rgs_data_Inl[OF Inl] assms(2) F model show ?thesis
          by (auto simp: main_def Let_def)
      next
        case rows: (Inr rows)
        let ?tr2 = "?tr1 @ [Initialized_F, Built_alignment_model, Built_P_rgs_df]"
        let ?em = "EM_complete fuel ar (arg_nof a) (arg_rank a) (in_finish_P_rgs_df inp model rows)
                     (in_gene_stats_df inp) F"
        have m: "main fuel ar a inp =
            (case ?em of
               None \<Rightarrow> None
             | Some (tr_em, Inl e) \<Rightarrow> Some (?tr2 @ tr_em, Inl e)
             | Some (tr_em, Inr final_F) \<Rightarrow>
                 (case collapse_rank (arg_rank a) of
                    Inl e \<Rightarrow> Some (?tr2 @ tr_em @ [Wrote_lineage], Inl e)
                  | Inr keep_ranks \<Rightarrow>
                      Some (?tr2 @ tr_em @ [Wrote_lineage, Collapsed_rank]
                              @ (if arg_keep_alignments a then [] else [Removed_sam]),
                            Inr final_F)))"
          by (simp add: main_def Let_def F model rows)
        from assms(2) m obtain tr_em r where em: "?em = Some (tr_em, r)"
          by (cases ?em) auto
        from EM_complete_cases[OF em] bad
        consider (zero) "tr_em = []" "r = Inl ZeroDivisionError"
          | (rank) i where "2 \<le> i" "tr_em = [EM_converged i, Final_EM_step, Wrote_lineage]"
              "r = Inl (ValueError rank_message)"
          by auto
        then show ?thesis
        proof cases
          case zero
          with assms(2) m em have "res = Inl ZeroDivisionError" by simp
          then show ?thesis by simp
        next
          case rank
          with assms(2) m em have "res = Inl (ValueError rank_message)"
            and "tr = ?tr1 @ [Initialized_F, Built_alignment_model, Built_P_rgs_df,
                              EM_converged i, Final_EM_step, Wrote_lineage]"
            by simp_all
          with rank(1) show ?thesis by blast
        qed
      qed
    qed
  qed
  with bad show ?thesis by blast
qed

theorem invalid_rank_fails_after_EM_witness:
  "arg_rank \<lparr>arg_sam_input = Some ''reads.sam'', arg_keep_alignments = True, arg_minimap2_AS = False,
        arg_aln_score = None, arg_aln_score_gene = False, arg_gid_name = False,
        arg_nof = True, arg_rank = ''kingdom''\<rparr> \<notin> set TAXONOMY_RANKS
   \<and> (\<forall>ar. main 2 ar \<lparr>arg_sam_input = Some ''reads.sam'', arg_keep_alignments = True, arg_minimap2_AS = False,
        arg_aln_score = None, arg_aln_score_gene = False, arg_gid_name = False,
        arg_nof = True, arg_rank = ''kingdom''\<rparr>
       \<lparr>in_sam = [\<lparr>query_name = ''r1'', reference_name = ''562:g/RpsE'', ref_tid = 562,
                  ref_gene = ''RpsE'', is_secondary = False, is_supplementary = False,
                  AS = 20, cigartuples = [(7, 10), (1, 3)]\<rparr>],
        in_tax_ids = [562],
        in_gene_stats_df = [(562, ''RpsE'')],
        in_finish_P_rgs_df = (\<lambda>model rows.
           map (\<lambda>r. \<lparr>Read_ID = Read_ID_col r, Target_ID = Target_ID_col r, log_P = 0,
                       Gene = Gene_col r\<rparr>) rows)\<rparr>
     = Some ([Loaded_taxonomy, Initialized_F, Built_alignment_model, Built_P_rgs_df,
              EM_converged 2, Final_EM_step, Wrote_lineage],
             Inl (ValueError rank_message)))"
proof -
  let ?a = "\<lparr>arg_sam_input = Some ''reads.sam'', arg_keep_alignments = True, arg_minimap2_AS = False,
        arg_aln_score = None, arg_aln_score_gene = False, arg_gid_name = False,
        arg_nof = True, arg_rank = ''kingdom''\<rparr>"
  let ?inp = "\<lparr>in_sam = [\<lparr>query_name = ''r1'', reference_name = ''562:g/RpsE'', ref_tid = 562,
                  ref_gene = ''RpsE'', is_secondary = False, is_supplementary = False,
                  AS = 20, cigartuples = [(7, 10), (1, 3)]\<rparr>],
        in_tax_ids = [562],
        in_gene_stats_df = [(562, ''RpsE'')],
        in_finish_P_rgs_df = (\<lambda>model rows.
           map (\<lambda>r. \<lparr>Read_ID = Read_ID_col r, Target_ID = Target_ID_col r, log_P = 0,
                       Gene = Gene_col r\<rparr>) rows)\<rparr>"
  let ?P = "[\<lparr>Read_ID = ''r1'', Target_ID = 562, log_P = 0, Gene = ''RpsE''\<rparr>]"
  have h: "arg_rank ?a \<notin> set TAXONOMY_RANKS"
    by (simp add: TAXONOMY_RANKS_def)
  have step: "EM_step ?P [(562, 1)] = Inr \<lparr>F_of = [(562, 1)], P_tgr_sum_col = [0]\<rparr>"
    by (subst EM_step_exact_rows) (simp_all add: EM_step_eval)
  have loop: "EM_loop 2 ?P [(562, 1)] MInf 1
      = Some (Inr (2, \<lparr>F_of = [(562, 1)], P_tgr_sum_col = [0]\<rparr>))"
    by (simp add: numeral_2_eq_2 step compute_loglikelihood_def lli_threshold_def)
  have em: "EM_complete 2 ar True ''kingdom'' ?P [(562, ''RpsE'')] [(562, 1)]
      = Some ([EM_converged 2, Final_EM_step, Wrote_lineage], Inl (ValueError rank_message))"
    for ar :: "'a arith"
    by (simp add: EM_complete_def plausibility_filter_def loop step collapse_rank_def
        TAXONOMY_RANKS_def del: One_nat_def)
  have run: "main 2 ar ?a ?inp
     = Some ([Loaded_taxonomy, Initialized_F, Built_alignment_model, Built_P_rgs_df,
              EM_converged 2, Final_EM_step, Wrote_lineage],
             Inl (ValueError rank_message))" for ar :: "'a arith"
    by (simp add: main_def init_F_def build_alignment_model_def P_rgs_data_row_def
        get_aln_len_def em)
  from invalid_rank_fails_after_EM [OF h run] h run show ?thesis
    by blast
qed


end
